theory Spec2Isabelle
  imports Complex_Main "HOL-Library.Word"
begin

text \<open>
  A shallow embedding of the projection and label-placement core of the map renderer.
  JavaScript numbers are modelled by \<^typ>\<open>real\<close> (and by \<^typ>\<open>int\<close> where the code
  only ever holds integers: frame counters, vertex indices, tile coordinates); NaN and the
  infinities are not modelled. \<^verbatim>\<open>browser.now()\<close> is an argument of every function that
  reads the clock.
\<close>

section \<open>Helpers of render/projection\_manager.ts\<close>

definition clamp :: "real \<Rightarrow> real \<Rightarrow> real \<Rightarrow> real" where
  "clamp a lo hi = min (max a lo) hi"

definition lerp :: "real \<Rightarrow> real \<Rightarrow> real \<Rightarrow> real" where
  "lerp a b mix = a * (1 - mix) + b * mix"

definition smoothStep :: "real \<Rightarrow> real \<Rightarrow> real \<Rightarrow> real" where
  "smoothStep edge0 edge1 x =
     (let t = clamp ((x - edge0) / (edge1 - edge0)) 0 1
      in t * t * (3 - 2 * t))"

definition globeTransitionTimeSeconds :: real where
  "globeTransitionTimeSeconds = 0.5"

definition zoomTransitionTimeSeconds :: real where
  "zoomTransitionTimeSeconds = 0.5"

definition maxGlobeZoom :: real where
  "maxGlobeZoom = 12"

definition errorTransitionTimeSeconds :: real where
  "errorTransitionTimeSeconds = 0.5"

section \<open>GPU error read-back decoding\<close>

text \<open>
  The read-back buffer is a \<^verbatim>\<open>Uint8Array(4)\<close>: four unsigned bytes.
\<close>

record rgba8 =
  byte0 :: "8 word"
  byte1 :: "8 word"
  byte2 :: "8 word"
  byte3 :: "8 word"

text \<open>
  \<^verbatim>\<open>parseRGBA8float\<close>: the accumulator \<^verbatim>\<open>result\<close> is updated three times, conditionally
  negated, and divided by 128 on return.
\<close>

definition parseRGBA8float :: "rgba8 \<Rightarrow> real" where
  "parseRGBA8float buffer =
     (let result = 0;
          result = result + real (unat (byte0 buffer)) / 256;
          result = result + real (unat (byte1 buffer)) / 65536;
          result = result + real (unat (byte2 buffer)) / 16777216;
          result = (if unat (byte3 buffer) < 127 then - result else result)
      in result / 128)"

text \<open>
  The decoding as the specification words it, on the four byte values: the mantissa
  \<open>b0/256 + b1/65536 + b2/16777216\<close>, negated when \<open>b3 < 127\<close>, divided by 128.
\<close>

definition decodedErrorSpec :: "nat \<Rightarrow> nat \<Rightarrow> nat \<Rightarrow> nat \<Rightarrow> real" where
  "decodedErrorSpec b0 b1 b2 b3 =
     (if b3 < 127 then - (real b0 / 256 + real b1 / 65536 + real b2 / 16777216)
      else real b0 / 256 + real b1 / 65536 + real b2 / 16777216) / 128"

section \<open>The error-measurement loop (class ProjectionErrorMeasurement)\<close>

text \<open>
  What the GL context answers is an argument of each call: whether the context is a
  WebGL2 context, what \<^verbatim>\<open>clientWaitSync\<close> returns, and the four bytes a read-back
  delivers. The GL commands that draw the measurement or transfer its pixel are appended
  to a log, in the order the code issues them.
\<close>

datatype wait_status = WAIT_FAILED | TIMEOUT_EXPIRED | SIGNALED

datatype gl_call =
    Draw
  | ReadPixelsToPbo nat
  | FenceSync
  | ClientWaitSync wait_status
  | GetBufferSubData nat
  | ReadPixelsBlocking

record gl_env =
  webgl2 :: bool
  waitResult :: wait_status
  pixel :: rgba8

datatype sync_object = Fence

record readback =
  readbackIndex :: nat
  frameNumberIssued :: int
  sync :: "sync_object option"

record error_measurement =
  pbos :: "nat option"
  nextPboIndex :: nat
  measuredError :: real
  updateCount :: int
  lastReadbackFrame :: int
  readbackQueue :: "readback option"
  resultBuffer :: rgba8
  glLog :: "(int \<times> gl_call) list"

definition ringBufferSize :: nat where
  "ringBufferSize = 2"

definition readbackWaitFrames :: int where
  "readbackWaitFrames = 4"

definition measureWaitFrames :: int where
  "measureWaitFrames = 4"

definition allowWebGL2 :: bool where
  "allowWebGL2 = True"

text \<open>The constructor: the ring of pixel-pack buffers exists on a WebGL2 context only.\<close>

definition newErrorMeasurement :: "bool \<Rightarrow> error_measurement" where
  "newErrorMeasurement isWebGL2 =
     \<lparr>pbos = (if allowWebGL2 \<and> isWebGL2 then Some ringBufferSize else None),
      nextPboIndex = 0,
      measuredError = 0,
      updateCount = 0,
      lastReadbackFrame = - 1000,
      readbackQueue = None,
      resultBuffer = \<lparr>byte0 = 0, byte1 = 0, byte2 = 0, byte3 = 0\<rparr>,
      glLog = []\<rparr>"

definition awaitingQuery :: "error_measurement \<Rightarrow> bool" where
  "awaitingQuery m = (readbackQueue m \<noteq> None)"

text \<open>Each logged command carries the frame number (\<^verbatim>\<open>_updateCount\<close>) it was issued in.\<close>

definition logCalls :: "gl_call list \<Rightarrow> error_measurement \<Rightarrow> error_measurement" where
  "logCalls cs m = m\<lparr>glLog := glLog m @ map (\<lambda>c. (updateCount m, c)) cs\<rparr>"

definition renderErrorTexture :: "gl_env \<Rightarrow> error_measurement \<Rightarrow> error_measurement" where
  "renderErrorTexture env m =
     (let m = logCalls [Draw] m
      in case pbos m of
           Some n \<Rightarrow>
             if allowWebGL2 \<and> webgl2 env then
               (let m = logCalls [ReadPixelsToPbo (nextPboIndex m), FenceSync] m
                in m\<lparr>readbackQueue := Some \<lparr>readbackIndex = nextPboIndex m,
                                            frameNumberIssued = updateCount m,
                                            sync = Some Fence\<rparr>,
                     nextPboIndex := (nextPboIndex m + 1) mod n\<rparr>)
             else
               m\<lparr>readbackQueue := Some \<lparr>readbackIndex = 0,
                                         frameNumberIssued = updateCount m,
                                         sync = None\<rparr>\<rparr>
         | None \<Rightarrow>
             m\<lparr>readbackQueue := Some \<lparr>readbackIndex = 0,
                                       frameNumberIssued = updateCount m,
                                       sync = None\<rparr>\<rparr>)"

text \<open>
  \<^verbatim>\<open>_tryReadback\<close>: on the WebGL2 path a failed wait abandons the measurement, an
  expired timeout leaves everything as it is, and otherwise the bytes are fetched; the
  WebGL1 path reads the pixel with a blocking call. Both fetches end in the common tail.
\<close>

definition finishReadback :: "gl_env \<Rightarrow> error_measurement \<Rightarrow> error_measurement" where
  "finishReadback env m =
     m\<lparr>resultBuffer := pixel env,
       readbackQueue := None,
       measuredError := parseRGBA8float (pixel env),
       lastReadbackFrame := updateCount m\<rparr>"

definition tryReadback :: "gl_env \<Rightarrow> error_measurement \<Rightarrow> error_measurement" where
  "tryReadback env m =
     (case (pbos m, readbackQueue m) of
        (Some n, Some q) \<Rightarrow>
          if allowWebGL2 \<and> webgl2 env then
            (let m = logCalls [ClientWaitSync (waitResult env)] m
             in if waitResult env = WAIT_FAILED then
                  m\<lparr>readbackQueue := None, lastReadbackFrame := updateCount m\<rparr>
                else if waitResult env = TIMEOUT_EXPIRED then m
                else finishReadback env (logCalls [GetBufferSubData (readbackIndex q)] m))
          else finishReadback env (logCalls [ReadPixelsBlocking] m)
      | _ \<Rightarrow> finishReadback env (logCalls [ReadPixelsBlocking] m))"

text \<open>\<^verbatim>\<open>updateErrorLoop\<close> returns the measured error together with the new state.\<close>

definition updateErrorLoop :: "gl_env \<Rightarrow> error_measurement \<Rightarrow> real \<times> error_measurement" where
  "updateErrorLoop env m =
     (let currentFrame = updateCount m;
          m = (case readbackQueue m of
                 Some q \<Rightarrow>
                   if currentFrame \<ge> frameNumberIssued q + readbackWaitFrames
                   then tryReadback env m else m
               | None \<Rightarrow>
                   if currentFrame \<ge> lastReadbackFrame m + measureWaitFrames
                   then renderErrorTexture env m else m);
          m = m\<lparr>updateCount := updateCount m + 1\<rparr>
      in (measuredError m, m))"

text \<open>The loop run frame after frame, one GL answer per frame.\<close>

fun runErrorLoop :: "error_measurement \<Rightarrow> gl_env list \<Rightarrow> error_measurement" where
  "runErrorLoop m [] = m"
| "runErrorLoop m (env # envs) = runErrorLoop (snd (updateErrorLoop env m)) envs"

text \<open>
  Reading the log as a protocol: a draw issues a read-back, which is resolved by the
  fetch of its bytes (from the buffer or by the blocking read) or by a failed wait.
  \<open>replay\<close> goes through a log and answers whether a read-back is pending at its end,
  or \<open>None\<close> when the log issued a read-back while one was pending or resolved one
  that was not. \<open>lastResolved\<close> is the frame of the last resolution, with the
  constructor's \<open>-1000\<close> when there was none; \<open>callsOf\<close> are the commands one
  call of \<^const>\<open>updateErrorLoop\<close> adds to the log.
\<close>

fun resolves :: "gl_call \<Rightarrow> bool" where
  "resolves (GetBufferSubData i) = True"
| "resolves ReadPixelsBlocking = True"
| "resolves (ClientWaitSync w) = (w = WAIT_FAILED)"
| "resolves c = False"

fun replay :: "bool \<Rightarrow> (int \<times> gl_call) list \<Rightarrow> bool option" where
  "replay pending [] = Some pending"
| "replay pending ((f, c) # cs) =
     (if c = Draw then (if pending then None else replay True cs)
      else if resolves c then (if pending then replay False cs else None)
      else replay pending cs)"

definition pendingAfter :: "(int \<times> gl_call) list \<Rightarrow> bool option" where
  "pendingAfter calls = replay False calls"

fun lastResolvedFrom :: "int \<Rightarrow> (int \<times> gl_call) list \<Rightarrow> int" where
  "lastResolvedFrom r [] = r"
| "lastResolvedFrom r ((f, c) # cs) = lastResolvedFrom (if resolves c then f else r) cs"

definition lastResolved :: "(int \<times> gl_call) list \<Rightarrow> int" where
  "lastResolved calls = lastResolvedFrom (- 1000) calls"

definition callsOf :: "gl_env \<Rightarrow> error_measurement \<Rightarrow> gl_call list" where
  "callsOf env m = map snd (drop (length (glLog m)) (glLog (snd (updateErrorLoop env m))))"

section \<open>The spherical projection (class ProjectionManager, class GlobeTransform)\<close>

subsection \<open>Vectors of gl-matrix\<close>

type_synonym vec3 = "real \<times> real \<times> real"
type_synonym vec4 = "real \<times> real \<times> real \<times> real"

text \<open>
  \<^verbatim>\<open>vec3.rotateX\<close>, \<^verbatim>\<open>rotateY\<close>, \<^verbatim>\<open>rotateZ\<close> of the gl-matrix library rotate the
  point \<open>a\<close> around the origin \<open>b\<close> by \<open>rad\<close> radians: translate to the origin,
  rotate, translate back.
\<close>

fun vec3_rotateX :: "vec3 \<Rightarrow> vec3 \<Rightarrow> real \<Rightarrow> vec3" where
  "vec3_rotateX (a0, a1, a2) (b0, b1, b2) rad =
     (let p0 = a0 - b0; p1 = a1 - b1; p2 = a2 - b2;
          r0 = p0;
          r1 = p1 * cos rad - p2 * sin rad;
          r2 = p1 * sin rad + p2 * cos rad
      in (r0 + b0, r1 + b1, r2 + b2))"

fun vec3_rotateY :: "vec3 \<Rightarrow> vec3 \<Rightarrow> real \<Rightarrow> vec3" where
  "vec3_rotateY (a0, a1, a2) (b0, b1, b2) rad =
     (let p0 = a0 - b0; p1 = a1 - b1; p2 = a2 - b2;
          r0 = p2 * sin rad + p0 * cos rad;
          r1 = p1;
          r2 = p2 * cos rad - p0 * sin rad
      in (r0 + b0, r1 + b1, r2 + b2))"

fun vec3_rotateZ :: "vec3 \<Rightarrow> vec3 \<Rightarrow> real \<Rightarrow> vec3" where
  "vec3_rotateZ (a0, a1, a2) (b0, b1, b2) rad =
     (let p0 = a0 - b0; p1 = a1 - b1; p2 = a2 - b2;
          r0 = p0 * cos rad - p1 * sin rad;
          r1 = p0 * sin rad + p1 * cos rad;
          r2 = p2
      in (r0 + b0, r1 + b1, r2 + b2))"

fun vec3_scale :: "vec3 \<Rightarrow> real \<Rightarrow> vec3" where
  "vec3_scale (a0, a1, a2) b = (a0 * b, a1 * b, a2 * b)"

subsection \<open>The camera\<close>

text \<open>
  The values \<^verbatim>\<open>updateProjection\<close> reads from the transform: the centre in degrees, the
  zoom, the pitch in degrees, the bearing \<^verbatim>\<open>angle\<close> in radians, and the values of the
  getters \<^verbatim>\<open>worldSize\<close> and \<^verbatim>\<open>cameraToCenterDistance\<close>.
\<close>

record transform =
  center_lng :: real
  center_lat :: real
  zoom :: real
  pitch :: real
  angle :: real
  worldSize :: real
  cameraToCenterDistance :: real

subsection \<open>The clipping plane\<close>

text \<open>
  \<^verbatim>\<open>GlobeTransform._computeClippingPlane\<close>; \<^verbatim>\<open>ProjectionManager.updateProjection\<close> has
  the same statements inline, reading the same values from its \<^verbatim>\<open>transform\<close> argument.
\<close>

definition computeClippingPlane :: "transform \<Rightarrow> real \<Rightarrow> vec4" where
  "computeClippingPlane t globeRadiusPixels =
     (let pitch = pitch t * pi / 180;
          distanceCameraToB = cameraToCenterDistance t / globeRadiusPixels;
          radius = 1;
          distanceCameraToA = sin pitch * distanceCameraToB;
          distanceAtoC = cos pitch * distanceCameraToB + radius;
          distanceCameraToC =
            sqrt (distanceCameraToA * distanceCameraToA + distanceAtoC * distanceAtoC);
          camCTcosine = radius / distanceCameraToC;
          tangentPlaneDistanceToC = camCTcosine * radius;
          vectorCtoCamX = - distanceCameraToA;
          vectorCtoCamY = distanceAtoC;
          vectorCtoCamLength =
            sqrt (vectorCtoCamX * vectorCtoCamX + vectorCtoCamY * vectorCtoCamY);
          vectorCtoCamX = vectorCtoCamX / vectorCtoCamLength;
          vectorCtoCamY = vectorCtoCamY / vectorCtoCamLength;
          planeVector = (0, vectorCtoCamX, vectorCtoCamY);
          planeVector = vec3_rotateZ planeVector (0, 0, 0) (angle t);
          planeVector = vec3_rotateX planeVector (0, 0, 0) (- 1 * center_lat t * pi / 180);
          planeVector = vec3_rotateY planeVector (0, 0, 0) (center_lng t * pi / 180);
          scale = 0.25;
          planeVector = vec3_scale planeVector scale
      in case planeVector of (n0, n1, n2) \<Rightarrow> (n0, n1, n2, - tangentPlaneDistanceToC * scale))"

text \<open>The radius \<^verbatim>\<open>updateProjection\<close> passes on.\<close>

definition globeRadiusPixels :: "transform \<Rightarrow> real" where
  "globeRadiusPixels t = worldSize t / (2 * pi) / cos (center_lat t * pi / 180)"

text \<open>\<open>dot(position on sphere, occlusion plane equation)\<close>, as both \<^verbatim>\<open>isOccluded\<close> write it.\<close>

fun planeDot :: "vec4 \<Rightarrow> vec3 \<Rightarrow> real" where
  "planeDot (p0, p1, p2, p3) (s0, s1, s2) = p0 * s0 + p1 * s1 + p2 * s2 + p3"

subsection \<open>Tile coordinates to the unit sphere\<close>

record canonical_tile_id =
  cz :: int
  cx :: int
  cy :: int

record unwrapped_tile_id =
  uwrap :: int
  canonical :: canonical_tile_id

definition EXTENT :: real where
  "EXTENT = 8192"

text \<open>
  JavaScript's \<^verbatim>\<open>a << b\<close>: the left operand is taken as a signed 32-bit integer, the
  shift count modulo 32, and the result is again a signed 32-bit integer.
\<close>

definition shl32 :: "int \<Rightarrow> int \<Rightarrow> int" where
  "shl32 a b = signed_take_bit 31 (push_bit (nat (b mod 32)) (signed_take_bit 31 a))"

definition tileCoordinatesToMercatorCoordinates ::
    "real \<Rightarrow> real \<Rightarrow> unwrapped_tile_id \<Rightarrow> real \<times> real" where
  "tileCoordinatesToMercatorCoordinates inTileX inTileY tileID =
     (let scale = 1 / real_of_int (shl32 1 (cz (canonical tileID)))
      in (inTileX / EXTENT * scale + real_of_int (cx (canonical tileID)) * scale,
          inTileY / EXTENT * scale + real_of_int (cy (canonical tileID)) * scale))"

text \<open>
  \<^verbatim>\<open>mod\<close> of util/util.ts is not among the sources; it is the argument \<open>modf\<close> of the
  functions that call it.
\<close>

definition mercatorCoordinatesToAngularCoordinates ::
    "(real \<Rightarrow> real \<Rightarrow> real) \<Rightarrow> real \<Rightarrow> real \<Rightarrow> real \<times> real" where
  "mercatorCoordinatesToAngularCoordinates modf mercatorX mercatorY =
     (let sphericalX = modf (mercatorX * pi * 2 + pi) (pi * 2);
          sphericalY = 2 * arctan (exp (pi - (mercatorY * pi * 2))) - pi * 0.5
      in (sphericalX, sphericalY))"

definition angularCoordinatesToVector :: "real \<Rightarrow> real \<Rightarrow> vec3" where
  "angularCoordinatesToVector lngRadians latRadians =
     (let len = cos latRadians
      in (sin lngRadians * len, sin latRadians, cos lngRadians * len))"

definition projectTileCoordinatesToSphere ::
    "(real \<Rightarrow> real \<Rightarrow> real) \<Rightarrow> real \<Rightarrow> real \<Rightarrow> unwrapped_tile_id \<Rightarrow> vec3" where
  "projectTileCoordinatesToSphere modf inTileX inTileY tileID =
     (let mercator = tileCoordinatesToMercatorCoordinates inTileX inTileY tileID;
          angular = mercatorCoordinatesToAngularCoordinates modf (fst mercator) (snd mercator);
          sphere = angularCoordinatesToVector (fst angular) (snd angular)
      in sphere)"

text \<open>\<^verbatim>\<open>GlobeTransform.isOccluded\<close>, on the cached clipping plane.\<close>

definition isOccluded ::
    "(real \<Rightarrow> real \<Rightarrow> real) \<Rightarrow> vec4 \<Rightarrow> real \<Rightarrow> real \<Rightarrow> unwrapped_tile_id \<Rightarrow> bool" where
  "isOccluded modf plane x y unwrappedTileID =
     (let spherePos = projectTileCoordinatesToSphere modf x y unwrappedTileID;
          dotResult = planeDot plane spherePos
      in dotResult < 0)"

text \<open>
  \<^verbatim>\<open>ProjectionManager._projectToSphere\<close> and \<^verbatim>\<open>ProjectionManager.isOccluded\<close>: the older
  form, which does not wrap the longitude and answers \<open>False\<close> while the globe is
  disabled.
\<close>

definition projectToSphere :: "real \<Rightarrow> real \<Rightarrow> vec3" where
  "projectToSphere mercatorX mercatorY =
     (let sphericalX = mercatorX * pi * 2 + pi;
          sphericalY = 2 * arctan (exp (pi - (mercatorY * pi * 2))) - pi * 0.5;
          len = cos sphericalY
      in (sin sphericalX * len, sin sphericalY, cos sphericalX * len))"

definition tileToSphere :: "real \<Rightarrow> real \<Rightarrow> unwrapped_tile_id \<Rightarrow> vec3" where
  "tileToSphere x y unwrappedTileID =
     (let scale = 1 / real_of_int (shl32 1 (cz (canonical unwrappedTileID)))
      in projectToSphere
           (x / EXTENT * scale + real_of_int (cx (canonical unwrappedTileID)) * scale)
           (y / EXTENT * scale + real_of_int (cy (canonical unwrappedTileID)) * scale))"

definition isOccludedPM :: "bool \<Rightarrow> vec4 \<Rightarrow> real \<Rightarrow> real \<Rightarrow> unwrapped_tile_id \<Rightarrow> bool" where
  "isOccludedPM globeEnabled plane x y unwrappedTileID =
     (if \<not> globeEnabled then False
      else let spherePos = tileToSphere x y unwrappedTileID;
               dotResult = planeDot plane spherePos
           in dotResult < 0)"

subsection \<open>class ProjectionManager\<close>

text \<open>
  The fields of the class that the modelled methods read or write. \<^verbatim>\<open>map\<close> is
  \<open>None\<close> when undefined and otherwise holds the map's \<^verbatim>\<open>_globeEnabled\<close> flag;
  \<^verbatim>\<open>_globeness\<close> and \<^verbatim>\<open>_errorMeasurement\<close> are undefined (\<open>None\<close>) until first
  assigned. The projection matrix is left out: no modelled method reads it.
\<close>

record projection_manager =
  pm_map :: "bool option"
  cachedClippingPlane :: vec4
  lastGlobeStateEnabled :: bool
  lastGlobeChangeTime :: real
  lastLargeZoomStateChange :: real
  lastLargeZoomState :: bool
  globeness :: "real option"
  skipNextAnimation :: bool
  errorMeasurement :: "error_measurement option"
  errorQueryLatitudeDegrees :: "real option"
  errorCorrectionUsable :: real
  errorMeasurementLastValue :: real
  errorCorrectionPreviousValue :: real
  errorMeasurementLastChangeTime :: real

definition newProjectionManager :: "bool option \<Rightarrow> projection_manager" where
  "newProjectionManager m =
     \<lparr>pm_map = m,
      cachedClippingPlane = (1, 0, 0, 0),
      lastGlobeStateEnabled = False,
      lastGlobeChangeTime = - 1000,
      lastLargeZoomStateChange = - 1000,
      lastLargeZoomState = False,
      globeness = None,
      skipNextAnimation = False,
      errorMeasurement = None,
      errorQueryLatitudeDegrees = None,
      errorCorrectionUsable = 0,
      errorMeasurementLastValue = 0,
      errorCorrectionPreviousValue = 0,
      errorMeasurementLastChangeTime = - 1000\<rparr>"

definition isGlobeEnabled :: "projection_manager \<Rightarrow> bool" where
  "isGlobeEnabled s = (case pm_map s of Some globeEnabled \<Rightarrow> globeEnabled | None \<Rightarrow> False)"

definition skipNextProjectionTransitionAnimation :: "projection_manager \<Rightarrow> projection_manager" where
  "skipNextProjectionTransitionAnimation s = s\<lparr>skipNextAnimation := True\<rparr>"

text \<open>
  \<^verbatim>\<open>ProjectionManager._updateAnimation\<close>, with \<open>currentTime\<close> for \<^verbatim>\<open>browser.now()\<close>.
  The method has two parts, each under a comment of its own: ``Update globe transition
  animation'' and ``Update globe zoom transition''. They are two definitions here, run
  one after the other.
\<close>

definition updateGlobeTransition :: "real \<Rightarrow> projection_manager \<Rightarrow> projection_manager" where
  "updateGlobeTransition currentTime s =
     (let globeState = isGlobeEnabled s;
          s = (if globeState \<noteq> lastGlobeStateEnabled s
               then s\<lparr>lastGlobeChangeTime := currentTime, lastGlobeStateEnabled := globeState\<rparr>
               else s);
          globeTransition =
            min (max ((currentTime - lastGlobeChangeTime s) / 1000 / globeTransitionTimeSeconds) 0) 1;
          s = s\<lparr>globeness := Some (if globeState then globeTransition else 1 - globeTransition)\<rparr>
      in if skipNextAnimation s
         then s\<lparr>globeness := Some (if globeState then 1 else 0),
                lastGlobeChangeTime := currentTime - globeTransitionTimeSeconds * 1000 * 2,
                skipNextAnimation := False\<rparr>
         else s)"

text \<open>
  \<open>zoomGlobenessBound\<close> is the local constant of that name: the state has already
  taken the current zoom state when it is computed.
\<close>

definition noteZoomState :: "real \<Rightarrow> transform \<Rightarrow> projection_manager \<Rightarrow> projection_manager" where
  "noteZoomState currentTime t s =
     (let currentZoomState = (zoom t \<ge> maxGlobeZoom)
      in if currentZoomState \<noteq> lastLargeZoomState s
         then s\<lparr>lastLargeZoomState := currentZoomState, lastLargeZoomStateChange := currentTime\<rparr>
         else s)"

definition zoomGlobenessBound :: "real \<Rightarrow> transform \<Rightarrow> projection_manager \<Rightarrow> real" where
  "zoomGlobenessBound currentTime t s =
     (let currentZoomState = (zoom t \<ge> maxGlobeZoom);
          zoomTransition =
            min (max ((currentTime - lastLargeZoomStateChange s) / 1000 / zoomTransitionTimeSeconds) 0) 1
      in if currentZoomState then 1 - zoomTransition else zoomTransition)"

definition updateZoomTransition :: "real \<Rightarrow> transform \<Rightarrow> projection_manager \<Rightarrow> projection_manager" where
  "updateZoomTransition currentTime t s =
     (let s = noteZoomState currentTime t s;
          bound = zoomGlobenessBound currentTime t s;
          s = s\<lparr>globeness := map_option (\<lambda>g. min g bound) (globeness s)\<rparr>
      in s\<lparr>globeness := map_option (smoothStep 0 1) (globeness s)\<rparr>)"

definition updateAnimation :: "real \<Rightarrow> transform \<Rightarrow> projection_manager \<Rightarrow> projection_manager" where
  "updateAnimation currentTime t s =
     updateZoomTransition currentTime t (updateGlobeTransition currentTime s)"

text \<open>
  \<^verbatim>\<open>ProjectionManager.updateProjection\<close>: the latitude for the error query, the
  animation, and the clipping plane.
\<close>

definition updateProjection :: "real \<Rightarrow> transform \<Rightarrow> projection_manager \<Rightarrow> projection_manager" where
  "updateProjection currentTime t s =
     (let s = s\<lparr>errorQueryLatitudeDegrees := Some (center_lat t)\<rparr>;
          s = updateAnimation currentTime t s
      in s\<lparr>cachedClippingPlane := computeClippingPlane t (globeRadiusPixels t)\<rparr>)"

text \<open>
  A frame of the host: it may set the globe flag of the map, may ask to skip the next
  animation, and then updates the projection at the time and camera of the frame.
\<close>

record frame =
  setGlobeEnabled :: bool
  requestSkip :: bool
  frameTime :: real
  camera :: transform

definition frameUpdate :: "frame \<Rightarrow> projection_manager \<Rightarrow> projection_manager" where
  "frameUpdate f s =
     (let s = s\<lparr>pm_map := map_option (\<lambda>_. setGlobeEnabled f) (pm_map s)\<rparr>;
          s = (if requestSkip f then skipNextProjectionTransitionAnimation s else s)
      in updateProjection (frameTime f) (camera f) s)"

fun runFrames :: "projection_manager \<Rightarrow> frame list \<Rightarrow> projection_manager list" where
  "runFrames s [] = []"
| "runFrames s (f # fs) = (let s' = frameUpdate f s in s' # runFrames s' fs)"

text \<open>
  \<^verbatim>\<open>ProjectionManager.updateGPUdependent\<close>. The two numbers it hands to the measurement
  shader (the Mercator ordinate of the query latitude and the expected angle) do not
  come back into the state and are left out.
\<close>

definition updateGPUdependent :: "gl_env \<Rightarrow> real \<Rightarrow> projection_manager \<Rightarrow> projection_manager" where
  "updateGPUdependent env now s =
     (let m = (case errorMeasurement s of
                 None \<Rightarrow> newErrorMeasurement (webgl2 env)
               | Some m \<Rightarrow> m);
          r = updateErrorLoop env m;
          newValue = fst r;
          s = s\<lparr>errorMeasurement := Some (snd r)\<rparr>;
          s = (if newValue \<noteq> errorMeasurementLastValue s
               then s\<lparr>errorCorrectionPreviousValue := errorCorrectionUsable s,
                      errorMeasurementLastValue := newValue,
                      errorMeasurementLastChangeTime := now\<rparr>
               else s);
          sinceUpdateSeconds = (now - errorMeasurementLastChangeTime s) / 1000;
          mix = min (max (sinceUpdateSeconds / errorTransitionTimeSeconds) 0) 1;
          newCorrection = - errorMeasurementLastValue s
      in s\<lparr>errorCorrectionUsable :=
             lerp (errorCorrectionPreviousValue s) newCorrection (smoothStep 0 1 mix)\<rparr>)"

text \<open>
  \<^verbatim>\<open>ProjectionManager.isRenderingDirty\<close>. \<^verbatim>\<open>dirty || e\<close> evaluates \<open>e\<close> only when
  \<open>dirty\<close> is false, so the read of \<^verbatim>\<open>this._errorMeasurement.awaitingQuery\<close> throws a
  TypeError when it is reached before the measurement object exists.
\<close>

datatype js_error = TypeError

definition isRenderingDirty :: "real \<Rightarrow> projection_manager \<Rightarrow> js_error + bool" where
  "isRenderingDirty now s =
     (let dirty = False;
          dirty = (dirty \<or> (now - lastGlobeChangeTime s) / 1000
                     < max globeTransitionTimeSeconds zoomTransitionTimeSeconds + 0.2);
          dirty = (dirty \<or> (now - errorMeasurementLastChangeTime s) / 1000
                     < errorTransitionTimeSeconds + 0.2)
      in if dirty then Inr True
         else case errorMeasurement s of
                None \<Rightarrow> Inl TypeError
              | Some m \<Rightarrow> Inr (awaitingQuery m))"

text \<open>
  The transitions the update methods animate, as conditions on the clock: a transition
  is in progress while its parameter (the elapsed time over its duration, as the update
  methods compute it) is below 1.
\<close>

definition globeTransitionInProgress :: "real \<Rightarrow> projection_manager \<Rightarrow> bool" where
  "globeTransitionInProgress now s =
     ((now - lastGlobeChangeTime s) / 1000 / globeTransitionTimeSeconds < 1)"

definition zoomTransitionInProgress :: "real \<Rightarrow> projection_manager \<Rightarrow> bool" where
  "zoomTransitionInProgress now s =
     ((now - lastLargeZoomStateChange s) / 1000 / zoomTransitionTimeSeconds < 1)"

definition errorTransitionInProgress :: "real \<Rightarrow> projection_manager \<Rightarrow> bool" where
  "errorTransitionInProgress now s =
     ((now - errorMeasurementLastChangeTime s) / 1000 / errorTransitionTimeSeconds < 1)"

subsection \<open>class GlobeTransform: the transition\<close>

text \<open>
  \<^verbatim>\<open>globeConstants\<close> (geo/projection/globe.ts) and \<^verbatim>\<open>easeCubicInOut\<close> (util/util.ts)
  are not among the sources: the constants are a record the functions take, the easing
  curve a function they take.
\<close>

record globe_constants =
  gc_globeTransitionTimeSeconds :: real
  gc_zoomTransitionTimeSeconds :: real
  gc_maxGlobeZoom :: real

record globe_transform =
  gt_zoom :: real
  gt_globeProjectionOverride :: bool
  gt_lastGlobeStateEnabled :: bool
  gt_lastGlobeChangeTime :: real
  gt_lastLargeZoomStateChange :: real
  gt_lastLargeZoomState :: bool
  gt_globeness :: real
  gt_skipNextAnimation :: bool

definition setGlobeViewAllowed :: "bool \<Rightarrow> bool \<Rightarrow> globe_transform \<Rightarrow> globe_transform" where
  "setGlobeViewAllowed allow animateTransition s =
     (let s = (if \<not> animateTransition \<and> allow \<noteq> gt_globeProjectionOverride s
               then s\<lparr>gt_skipNextAnimation := True\<rparr> else s)
      in s\<lparr>gt_globeProjectionOverride := allow\<rparr>)"

text \<open>
  \<^verbatim>\<open>GlobeTransform._updateAnimation\<close>, in the same two parts. The zoom it reads is the
  transform's own.
\<close>

definition updateGlobeTransitionGT ::
    "globe_constants \<Rightarrow> real \<Rightarrow> globe_transform \<Rightarrow> globe_transform" where
  "updateGlobeTransitionGT gc currentTime s =
     (let globeState = gt_globeProjectionOverride s;
          s = (if globeState \<noteq> gt_lastGlobeStateEnabled s
               then s\<lparr>gt_lastGlobeChangeTime := currentTime, gt_lastGlobeStateEnabled := globeState\<rparr>
               else s);
          globeTransition =
            min (max ((currentTime - gt_lastGlobeChangeTime s) / 1000
                        / gc_globeTransitionTimeSeconds gc) 0) 1;
          s = s\<lparr>gt_globeness := (if globeState then globeTransition else 1 - globeTransition)\<rparr>
      in if gt_skipNextAnimation s
         then s\<lparr>gt_globeness := (if globeState then 1 else 0),
                gt_lastGlobeChangeTime := currentTime - gc_globeTransitionTimeSeconds gc * 1000 * 2,
                gt_skipNextAnimation := False\<rparr>
         else s)"

definition noteZoomStateGT :: "globe_constants \<Rightarrow> real \<Rightarrow> globe_transform \<Rightarrow> globe_transform" where
  "noteZoomStateGT gc currentTime s =
     (let currentZoomState = (gt_zoom s \<ge> gc_maxGlobeZoom gc)
      in if currentZoomState \<noteq> gt_lastLargeZoomState s
         then s\<lparr>gt_lastLargeZoomState := currentZoomState,
                gt_lastLargeZoomStateChange := currentTime\<rparr>
         else s)"

definition zoomGlobenessBoundGT :: "globe_constants \<Rightarrow> real \<Rightarrow> globe_transform \<Rightarrow> real" where
  "zoomGlobenessBoundGT gc currentTime s =
     (let currentZoomState = (gt_zoom s \<ge> gc_maxGlobeZoom gc);
          zoomTransition =
            min (max ((currentTime - gt_lastLargeZoomStateChange s) / 1000
                        / gc_zoomTransitionTimeSeconds gc) 0) 1
      in if currentZoomState then 1 - zoomTransition else zoomTransition)"

definition updateZoomTransitionGT ::
    "globe_constants \<Rightarrow> (real \<Rightarrow> real) \<Rightarrow> real \<Rightarrow> globe_transform \<Rightarrow> globe_transform" where
  "updateZoomTransitionGT gc easeCubicInOut currentTime s =
     (let s = noteZoomStateGT gc currentTime s;
          bound = zoomGlobenessBoundGT gc currentTime s;
          s = s\<lparr>gt_globeness := min (gt_globeness s) bound\<rparr>
      in s\<lparr>gt_globeness := easeCubicInOut (gt_globeness s)\<rparr>)"

definition updateAnimationGT ::
    "globe_constants \<Rightarrow> (real \<Rightarrow> real) \<Rightarrow> real \<Rightarrow> globe_transform \<Rightarrow> globe_transform" where
  "updateAnimationGT gc easeCubicInOut currentTime s =
     updateZoomTransitionGT gc easeCubicInOut currentTime (updateGlobeTransitionGT gc currentTime s)"

text \<open>\<^verbatim>\<open>GlobeTransform.isRenderingDirty\<close>.\<close>

definition isRenderingDirtyGT :: "globe_constants \<Rightarrow> real \<Rightarrow> globe_transform \<Rightarrow> bool" where
  "isRenderingDirtyGT gc now s =
     ((now - gt_lastGlobeChangeTime s) / 1000
        < max (gc_globeTransitionTimeSeconds gc) (gc_zoomTransitionTimeSeconds gc) + 0.2)"

section \<open>Tile coverage\<close>

subsection \<open>Tiles, options and the traversal\<close>

record overscaled_tile_id =
  tile_overscaledZ :: int
  tile_wrap :: int
  tile_canonical :: canonical_tile_id

text \<open>\<^verbatim>\<open>new OverscaledTileID(overscaledZ, wrap, z, x, y)\<close>.\<close>

definition newOverscaledTileID :: "int \<Rightarrow> int \<Rightarrow> int \<Rightarrow> int \<Rightarrow> int \<Rightarrow> overscaled_tile_id" where
  "newOverscaledTileID oz w z x y =
     \<lparr>tile_overscaledZ = oz, tile_wrap = w, tile_canonical = \<lparr>cz = z, cx = x, cy = y\<rparr>\<rparr>"

record covering_entry =
  tileID :: overscaled_tile_id
  distanceSq :: real
  tileDistanceToCamera :: real

text \<open>
  The options the two searches read (\<^verbatim>\<open>roundZoom\<close> only enters the covering zoom
  level, which is a value of the view). The terrain is its \<^verbatim>\<open>getMinMaxElevation\<close>.
\<close>

record covering_options =
  opt_tileSize :: real
  opt_minzoom :: "int option"
  opt_maxzoom :: "int option"
  opt_reparseOverscaled :: bool
  opt_terrain :: "(overscaled_tile_id \<Rightarrow> real option \<times> real option) option"

text \<open>\<^verbatim>\<open>Math.pow(2, z)\<close> for an integer \<open>z\<close>.\<close>

definition pow2 :: "int \<Rightarrow> real" where
  "pow2 z = (if 0 \<le> z then 2 ^ nat z else 1 / 2 ^ nat (- z))"

definition sqrLen :: "real \<Rightarrow> real \<Rightarrow> real" where
  "sqrLen a b = a * a + b * b"

text \<open>
  Both searches run the same loop: \<^verbatim>\<open>while (stack.length > 0) { const it = stack.pop(); ... }\<close>,
  whose body either drops the node, pushes an entry on the result, or pushes the four
  children on the stack. \<open>visit\<close> is the body: it answers the nodes pushed (the last
  pushed first, as they will be popped) and the entries appended. The head of the list is
  the top of the stack. The loop does not return on a node deeper than the target zoom
  that keeps splitting, so its value is an option.
\<close>

partial_function (option) coverLoop ::
    "('n \<Rightarrow> 'n list \<times> covering_entry list) \<Rightarrow> 'n list \<Rightarrow> covering_entry list
       \<Rightarrow> covering_entry list option" where
  "coverLoop visit stack result =
     (case stack of
        [] \<Rightarrow> Some result
      | it # rest \<Rightarrow>
          (case visit it of
             (pushed, emitted) \<Rightarrow> coverLoop visit (pushed @ rest) (result @ emitted)))"

text \<open>\<^verbatim>\<open>result.sort((a, b) => a.distanceSq - b.distanceSq).map(a => a.tileID)\<close>.\<close>

definition sortedTileIDs :: "covering_entry list \<Rightarrow> overscaled_tile_id list" where
  "sortedTileIDs result = map tileID (sort_key distanceSq result)"

subsection \<open>The spherical variant (geo/projection/globe\_covering\_tiles.ts)\<close>

definition distanceToTileSimple :: "real \<Rightarrow> real \<Rightarrow> real \<Rightarrow> real" where
  "distanceToTileSimple point tile tileSize =
     (let delta = point - tile
      in if delta < 0 then - delta else max 0 (delta - tileSize))"

definition distanceToTileWrapX :: "real \<Rightarrow> real \<Rightarrow> real \<Rightarrow> real \<Rightarrow> real \<Rightarrow> real" where
  "distanceToTileWrapX pointX pointY tileCornerX tileCornerY tileSize =
     (let tileCornerToPointX = pointX - tileCornerX;
          distanceX =
            (if tileCornerToPointX < 0
               then min (- tileCornerToPointX) (1 + tileCornerToPointX - tileSize)
             else if tileCornerToPointX > 1
               then min (max (tileCornerToPointX - tileSize) 0) (1 - tileCornerToPointX)
             else 0)
      in max distanceX (distanceToTileSimple pointY tileCornerY tileSize))"

definition distanceToTile :: "real \<Rightarrow> real \<Rightarrow> real \<Rightarrow> real \<Rightarrow> real \<Rightarrow> real" where
  "distanceToTile pointX pointY tileCornerX tileCornerY tileSize =
     (let worldSize = 1;
          halfWorld = 0.5 * worldSize;
          smallestDistance = 2 * worldSize;
          smallestDistance = min smallestDistance
            (distanceToTileWrapX pointX pointY tileCornerX tileCornerY tileSize);
          smallestDistance = min smallestDistance
            (distanceToTileWrapX pointX pointY (tileCornerX + halfWorld)
               (- tileCornerY - tileSize) tileSize);
          smallestDistance = min smallestDistance
            (distanceToTileWrapX pointX pointY (tileCornerX + halfWorld)
               (worldSize + worldSize - tileCornerY - tileSize) tileSize)
      in smallestDistance)"

datatype intersection_result = IntersectionNone | IntersectionPartial | IntersectionFull

text \<open>
  What the search asks of the transform: the covering zoom level, the Mercator
  coordinates of the camera point and of the centre, and \<^verbatim>\<open>isTileVisible(x, y, zoom)\<close>.
\<close>

record globe_view =
  gv_coveringZoomLevel :: int
  gv_cameraCoord :: "real \<times> real"
  gv_centerCoord :: "real \<times> real"
  gv_isTileVisible :: "int \<Rightarrow> int \<Rightarrow> int \<Rightarrow> intersection_result"

record globe_item =
  gi_x :: int
  gi_y :: int
  gi_zoom :: int
  gi_fullyVisible :: bool

text \<open>The wrap of a leaf: lines 144 to 154.\<close>

definition globeWrap :: "real \<Rightarrow> real \<Rightarrow> real \<Rightarrow> int" where
  "globeWrap centerX tileX tileSize =
     (let distanceCurrent = distanceToTileSimple centerX tileX tileSize;
          distanceLeft = distanceToTileSimple centerX (tileX - 1) tileSize;
          distanceRight = distanceToTileSimple centerX (tileX + 1) tileSize;
          distanceSmallest = min (min distanceCurrent distanceLeft) distanceRight;
          wrap = 0;
          wrap = (if distanceSmallest = distanceLeft then - 1 else wrap);
          wrap = (if distanceSmallest = distanceRight then 1 else wrap)
      in wrap)"

text \<open>
  The body of the loop, lines 105 to 169, for the target zoom \<open>maxZoom\<close>, in its three
  parts: whether the tile is split further (lines 129 to 135), the entry of a leaf (lines
  139 to 160) and the children pushed (lines 164 to 169).
\<close>

definition globeSplit :: "globe_view \<Rightarrow> globe_item \<Rightarrow> bool" where
  "globeSplit view it =
     (let cameraCoord = gv_cameraCoord view;
          centerCoord = gv_centerCoord view;
          radiusOfMaxLvlLodInTiles = 3;
          scale = real_of_int (shl32 1 (max (gi_zoom it) 0));
          tileSize = 1 / scale;
          tileX = real_of_int (gi_x it) / scale;
          tileY = real_of_int (gi_y it) / scale;
          centerDist = distanceToTile (fst centerCoord) (snd centerCoord) tileX tileY tileSize;
          cameraDist = distanceToTile (fst cameraCoord) (snd cameraCoord) tileX tileY tileSize
      in min centerDist cameraDist * 2 \<le> radiusOfMaxLvlLodInTiles)"

definition globeLeaf :: "globe_view \<Rightarrow> int \<Rightarrow> int \<Rightarrow> globe_item \<Rightarrow> covering_entry" where
  "globeLeaf view maxZoom overscaledZ it =
     (let cameraCoord = gv_cameraCoord view;
          centerCoord = gv_centerCoord view;
          numTiles = pow2 maxZoom;
          cameraPoint = (numTiles * fst cameraCoord, numTiles * snd cameraCoord);
          centerPoint = (numTiles * fst centerCoord, numTiles * snd centerCoord);
          x = gi_x it;
          y = gi_y it;
          scale = real_of_int (shl32 1 (max (gi_zoom it) 0));
          tileSize = 1 / scale;
          tileX = real_of_int x / scale;
          dz = maxZoom - gi_zoom it;
          dx = fst cameraPoint - 0.5 - real_of_int (shl32 x dz);
          dy = snd cameraPoint - 0.5 - real_of_int (shl32 y dz);
          wrap = globeWrap (fst centerCoord) tileX tileSize
      in \<lparr>tileID = newOverscaledTileID
                      (if gi_zoom it = maxZoom then overscaledZ else gi_zoom it)
                      wrap (gi_zoom it) x y,
          distanceSq = sqrLen (fst centerPoint - 0.5 - dx) (snd centerPoint - 0.5 - dy),
          tileDistanceToCamera = sqrt (dx * dx + dy * dy)\<rparr>)"

definition globeChild :: "globe_item \<Rightarrow> bool \<Rightarrow> int \<Rightarrow> globe_item" where
  "globeChild it fullyVisible i =
     (let childX = shl32 (gi_x it) 1 + i mod 2;
          childY = shl32 (gi_y it) 1 + i div 2;
          childZ = gi_zoom it + 1
      in \<lparr>gi_x = childX, gi_y = childY, gi_zoom = childZ, gi_fullyVisible = fullyVisible\<rparr>)"

definition globeVisit ::
    "globe_view \<Rightarrow> int \<Rightarrow> int \<Rightarrow> globe_item \<Rightarrow> globe_item list \<times> covering_entry list" where
  "globeVisit view maxZoom overscaledZ it =
     (let intersectResult = gv_isTileVisible view (gi_x it) (gi_y it) (gi_zoom it)
      in if \<not> gi_fullyVisible it \<and> intersectResult = IntersectionNone then ([], [])
         else
           let fullyVisible = (gi_fullyVisible it \<or> intersectResult = IntersectionFull)
           in if gi_zoom it = maxZoom \<or> \<not> globeSplit view it
              then ([], [globeLeaf view maxZoom overscaledZ it])
              else (rev (map (globeChild it fullyVisible) [0, 1, 2, 3]), []))"

definition globeCoveringTiles ::
    "globe_view \<Rightarrow> covering_options \<Rightarrow> overscaled_tile_id list option" where
  "globeCoveringTiles view options =
     (let z = gv_coveringZoomLevel view;
          actualZ = z
      in if (case opt_minzoom options of Some m \<Rightarrow> z < m | None \<Rightarrow> False) then Some []
         else
           let z = (case opt_maxzoom options of
                      Some m \<Rightarrow> if z > m then m else z
                    | None \<Rightarrow> z);
               maxZoom = z;
               overscaledZ = (if opt_reparseOverscaled options then actualZ else z)
           in map_option sortedTileIDs
                (coverLoop (globeVisit view maxZoom overscaledZ)
                   [\<lparr>gi_x = 0, gi_y = 0, gi_zoom = 0, gi_fullyVisible = False\<rparr>] []))"

subsection \<open>The flat variant (MercatorTransform.coveringTiles)\<close>













subsection \<open>The quadtree behind the traversal\<close>

text \<open>
  A node of the implicit quadtree is named by its world copy, zoom, column and row. The
  parent of a node halves column and row; two nodes are related when one is an ancestor
  of the other (or they are the same node); a list of nodes is \<open>apart\<close> when no two of
  its members are related.
\<close>

type_synonym tile_key = "int \<times> int \<times> int \<times> int"

definition keyZoom :: "tile_key \<Rightarrow> int" where
  "keyZoom k = (case k of (w, z, x, y) \<Rightarrow> z)"


definition childKeys :: "tile_key \<Rightarrow> tile_key list" where
  "childKeys k =
     (case k of (w, z, x, y) \<Rightarrow>
        rev (map (\<lambda>i. (w, z + 1, 2 * x + i mod 2, 2 * y + i div 2)) [0, 1, 2, 3]))"





subsection \<open>What the statements about the coverage say of nodes, entries and tiles\<close>

text \<open>
  A node of either traversal lies between zoom 0 and the target zoom, inside the grid of
  its zoom; the flat variant's nodes carry the wrap of their root.
\<close>

definition globeNode :: "int \<Rightarrow> globe_item \<Rightarrow> bool" where
  "globeNode maxZoom it =
     (0 \<le> gi_zoom it \<and> gi_zoom it \<le> maxZoom
      \<and> 0 \<le> gi_x it \<and> gi_x it < 2 ^ nat (gi_zoom it)
      \<and> 0 \<le> gi_y it \<and> gi_y it < 2 ^ nat (gi_zoom it))"








text \<open>
  The squared distance from a tile to the map centre, in tiles of the covering zoom
  \<open>z\<close>: between the centre of the tile (column and row plus one half) and the centre of
  the map. It is the expression the flat variant gives \<^verbatim>\<open>distanceSq\<close>.
\<close>

definition centerDistanceSq :: "real \<times> real \<Rightarrow> int \<Rightarrow> overscaled_tile_id \<Rightarrow> real" where
  "centerDistanceSq centerCoord z t =
     sqrLen (pow2 z * fst centerCoord - 0.5 - real_of_int (cx (tile_canonical t)))
            (pow2 z * snd centerCoord - 0.5 - real_of_int (cy (tile_canonical t)))"







subsection \<open>Label placement along a line (symbol/projection.ts)\<close>

text \<open>
  Points of the label plane and of a tile are pairs of reals, with the operations of the
  Point class the code uses. Numbers are reals: where the program would divide by zero or
  read past an array, and go on with NaN, an infinity or \<^verbatim>\<open>undefined\<close>, the functions
  below return \<open>None\<close> and say nothing more.
\<close>

type_synonym point = "real \<times> real"

definition pointAdd :: "point \<Rightarrow> point \<Rightarrow> point" where
  "pointAdd a b = (fst a + fst b, snd a + snd b)"

definition pointSub :: "point \<Rightarrow> point \<Rightarrow> point" where
  "pointSub a b = (fst a - fst b, snd a - snd b)"

definition pointMult :: "point \<Rightarrow> real \<Rightarrow> point" where
  "pointMult a k = (fst a * k, snd a * k)"

definition pointMag :: "point \<Rightarrow> real" where
  "pointMag a = sqrt (fst a * fst a + snd a * snd a)"

definition pointPerp :: "point \<Rightarrow> point" where
  "pointPerp a = (- snd a, fst a)"

definition pointUnit :: "point \<Rightarrow> point option" where
  "pointUnit a = (if pointMag a = 0 then None else Some (fst a / pointMag a, snd a / pointMag a))"

text \<open>\<^verbatim>\<open>Math.atan2(y, x)\<close>.\<close>

definition atan2 :: "real \<Rightarrow> real \<Rightarrow> real" where
  "atan2 y x =
     (if 0 < x then arctan (y / x)
      else if x < 0 then (if 0 \<le> y then arctan (y / x) + pi else arctan (y / x) - pi)
      else if 0 < y then pi / 2
      else if y < 0 then - (pi / 2)
      else 0)"

text \<open>
  The cache of one symbol (lines 435 to 448) and the arguments of a projection (lines 453
  to 493). The vertex array answers an index with a point or, past its end, with nothing.
  The two projections are arguments: \<open>labelPlaneProject\<close> is
  \<^verbatim>\<open>projectFromMapToLabelPlane(point, labelPlaneMatrix, getElevation)\<close> and \<open>managerProject\<close> is
  \<^verbatim>\<open>projectionManager.project(x, y, unwrappedTileID)\<close>, each with the point and the signed
  distance from the camera it returns.
\<close>

record projection_cache =
  projections :: "int \<rightharpoonup> point"
  offsets :: "int \<rightharpoonup> point"
  cachedAnchorPoint :: "point option"

record projection_args =
  lineVertexArray :: "int \<rightharpoonup> point"
  labelPlaneProject :: "point \<Rightarrow> point \<times> real"
  managerProject :: "point \<Rightarrow> point \<times> real"
  useSpecialProjectionForSymbols :: bool
  tileAnchorPoint :: point
  pitchWithMap :: bool
  width :: real
  height :: real

record synthetic_vertex_args =
  distanceFromAnchor :: real
  previousVertex :: point
  direction :: int
  absOffsetX :: real

text \<open>
  From normalised device coordinates to the viewport, as lines 531 and 532 and lines 547
  and 548 do.
\<close>

definition toViewport :: "projection_args \<Rightarrow> point \<Rightarrow> point" where
  "toViewport args p = ((fst p * 0.5 + 0.5) * width args, (- snd p * 0.5 + 0.5) * height args)"

definition projectTileCoordinatesToViewport :: "projection_args \<Rightarrow> point \<Rightarrow> point \<times> real" where
  "projectTileCoordinatesToViewport args p =
     (if \<not> pitchWithMap args \<and> useSpecialProjectionForSymbols args
      then (let projection = managerProject args p
            in (toViewport args (fst projection), snd projection))
      else labelPlaneProject args p)"

text \<open>
  \<^verbatim>\<open>projectVertexToViewport\<close>, lines 508 to 539: the cached projection; or the projection
  of the vertex, cached when it lies in front of the camera; or a substitute on the ray
  from the previous vertex, which is returned and not cached.
\<close>

definition syntheticVertex ::
    "projection_args \<Rightarrow> synthetic_vertex_args \<Rightarrow> point \<Rightarrow> point \<Rightarrow> point option" where
  "syntheticVertex args sv previousTilePoint currentVertex =
     (let minimumLength = absOffsetX sv - distanceFromAnchor sv + 1
      in case pointUnit (pointSub previousTilePoint currentVertex) of
           None \<Rightarrow> None
         | Some u \<Rightarrow>
             let unitVertextoBeProjected = pointAdd previousTilePoint u;
                 projectedUnitVertex =
                   toViewport args (fst (managerProject args unitVertextoBeProjected));
                 projectedUnitSegment = pointSub (previousVertex sv) projectedUnitVertex
             in if pointMag projectedUnitSegment = 0 then None
                else Some (pointAdd (previousVertex sv)
                             (pointMult projectedUnitSegment
                                (minimumLength / pointMag projectedUnitSegment))))"

definition projectVertexToViewport ::
    "int \<Rightarrow> projection_args \<Rightarrow> synthetic_vertex_args \<Rightarrow> projection_cache
       \<Rightarrow> (point \<times> projection_cache) option" where
  "projectVertexToViewport index args sv cache =
     (case projections cache index of
        Some p \<Rightarrow> Some (p, cache)
      | None \<Rightarrow>
          (case lineVertexArray args index of
             None \<Rightarrow> None
           | Some currentVertex \<Rightarrow>
               let projection = projectTileCoordinatesToViewport args currentVertex
               in if snd projection > 0
                  then Some (fst projection,
                             cache\<lparr>projections := (projections cache)(index \<mapsto> fst projection)\<rparr>)
                  else
                    let previousLineVertexIndex = index - direction sv;
                        previousTilePoint =
                          (if distanceFromAnchor sv = 0 then Some (tileAnchorPoint args)
                           else lineVertexArray args previousLineVertexIndex)
                    in case previousTilePoint of
                         None \<Rightarrow> None
                       | Some previousTilePoint \<Rightarrow>
                           map_option (\<lambda>p. (p, cache))
                             (syntheticVertex args sv previousTilePoint currentVertex)))"

definition transformToOffsetNormal :: "point \<Rightarrow> real \<Rightarrow> int \<Rightarrow> point option" where
  "transformToOffsetNormal segmentVector offset dir =
     map_option (\<lambda>u. pointMult (pointPerp u) (offset * real_of_int dir)) (pointUnit segmentVector)"

text \<open>
  \<^verbatim>\<open>findOffsetIntersectionPoint\<close>, lines 581 to 613. \<^verbatim>\<open>findLineIntersection\<close>
  (util/util.ts) is not among the sources: it is the argument \<open>findLineIntersection\<close>,
  which answers with a point or with null.
\<close>

definition findOffsetIntersectionPoint ::
    "(point \<Rightarrow> point \<Rightarrow> point \<Rightarrow> point \<Rightarrow> point option) \<Rightarrow> int \<Rightarrow> point \<Rightarrow> point \<Rightarrow> int \<Rightarrow> int
       \<Rightarrow> point \<Rightarrow> real \<Rightarrow> projection_args \<Rightarrow> synthetic_vertex_args \<Rightarrow> projection_cache
       \<Rightarrow> (point \<times> projection_cache) option" where
  "findOffsetIntersectionPoint findLineIntersection index prevToCurrentOffsetNormal currentVertex
       lineStartIndex lineEndIndex offsetPreviousVertex lineOffsetY args sv cache =
     (case offsets cache index of
        Some p \<Rightarrow> Some (p, cache)
      | None \<Rightarrow>
          let offsetCurrentVertex = pointAdd currentVertex prevToCurrentOffsetNormal
          in if index + direction sv < lineStartIndex \<or> index + direction sv \<ge> lineEndIndex
             then Some (offsetCurrentVertex,
                        cache\<lparr>offsets := (offsets cache)(index \<mapsto> offsetCurrentVertex)\<rparr>)
             else
               (case projectVertexToViewport (index + direction sv) args sv cache of
                  None \<Rightarrow> None
                | Some (nextVertex, cache) \<Rightarrow>
                    (case transformToOffsetNormal (pointSub nextVertex currentVertex) lineOffsetY
                            (direction sv) of
                       None \<Rightarrow> None
                     | Some currentToNextOffsetNormal \<Rightarrow>
                         let offsetNextSegmentBegin = pointAdd currentVertex currentToNextOffsetNormal;
                             offsetNextSegmentEnd = pointAdd nextVertex currentToNextOffsetNormal;
                             intersection =
                               (case findLineIntersection offsetPreviousVertex offsetCurrentVertex
                                       offsetNextSegmentBegin offsetNextSegmentEnd of
                                  Some p \<Rightarrow> p
                                | None \<Rightarrow> offsetCurrentVertex)
                         in Some (intersection,
                                  cache\<lparr>offsets := (offsets cache)(index \<mapsto> intersection)\<rparr>))))"

text \<open>
  \<^verbatim>\<open>placeGlyphAlongLine\<close>, lines 639 to 756. What does not change in the loop:
\<close>

record walk_params =
  wp_findLineIntersection :: "point \<Rightarrow> point \<Rightarrow> point \<Rightarrow> point \<Rightarrow> point option"
  wp_args :: projection_args
  wp_lineOffsetY :: real
  wp_direction :: int
  wp_absOffsetX :: real
  wp_lineStartIndex :: int
  wp_lineEndIndex :: int

text \<open>and the variables of the loop:\<close>

record walk_state =
  ws_currentIndex :: int
  ws_currentVertex :: point
  ws_previousVertex :: point
  ws_offsetIntersectionPoint :: "point option"
  ws_offsetPreviousVertex :: "point option"
  ws_distanceFromAnchor :: real
  ws_currentSegmentDistance :: real
  ws_pathVertices :: "point list"
  ws_currentLineSegment :: "point option"

datatype walk_step = ReturnNull | NotANumber | Continue walk_state projection_cache

text \<open>
  The normal of the section, lines 714 to 724: of the segment from the previous vertex,
  or, when the anchor lies on the vertex, of the segment to the vertex after it.
\<close>

definition sectionNormal ::
    "walk_params \<Rightarrow> synthetic_vertex_args \<Rightarrow> int \<Rightarrow> point \<Rightarrow> point \<Rightarrow> projection_cache
       \<Rightarrow> (point \<times> projection_cache) option" where
  "sectionNormal W sv index current previous cache =
     (let prevToCurrent = pointSub current previous
      in if pointMag prevToCurrent = 0
         then (case projectVertexToViewport (index + wp_direction W) (wp_args W) sv cache of
                 None \<Rightarrow> None
               | Some (nextVertex, cache) \<Rightarrow>
                   map_option (\<lambda>n. (n, cache))
                     (transformToOffsetNormal (pointSub nextVertex current)
                        (wp_lineOffsetY W) (wp_direction W)))
         else map_option (\<lambda>n. (n, cache))
                (transformToOffsetNormal prevToCurrent (wp_lineOffsetY W) (wp_direction W)))"

text \<open>
  The body of the loop, lines 693 to 734: the arguments for a substitute vertex (lines 704
  to 709), the variables after a turn without a line offset (lines 713 to 716) and with
  one (lines 728 to 733), and the body itself.
\<close>

definition syntheticVertexArgsOf :: "walk_params \<Rightarrow> walk_state \<Rightarrow> synthetic_vertex_args" where
  "syntheticVertexArgsOf W st =
     \<lparr>distanceFromAnchor = ws_distanceFromAnchor st + ws_currentSegmentDistance st,
      previousVertex = ws_currentVertex st, direction = wp_direction W,
      absOffsetX = wp_absOffsetX W\<rparr>"

definition plainSection :: "walk_state \<Rightarrow> int \<Rightarrow> point \<Rightarrow> walk_state" where
  "plainSection st index current =
     \<lparr>ws_currentIndex = index, ws_currentVertex = current,
      ws_previousVertex = ws_currentVertex st,
      ws_offsetIntersectionPoint = ws_offsetIntersectionPoint st,
      ws_offsetPreviousVertex = ws_offsetIntersectionPoint st,
      ws_distanceFromAnchor = ws_distanceFromAnchor st + ws_currentSegmentDistance st,
      ws_currentSegmentDistance = pointMag (pointSub current (ws_currentVertex st)),
      ws_pathVertices = ws_pathVertices st @ [ws_currentVertex st],
      ws_currentLineSegment = Some (pointSub current (ws_currentVertex st))\<rparr>"

definition offsetSection :: "walk_state \<Rightarrow> int \<Rightarrow> point \<Rightarrow> point \<Rightarrow> point \<Rightarrow> walk_state" where
  "offsetSection st index current offsetPrevious intersection =
     \<lparr>ws_currentIndex = index, ws_currentVertex = current,
      ws_previousVertex = ws_currentVertex st,
      ws_offsetIntersectionPoint = Some intersection,
      ws_offsetPreviousVertex = Some offsetPrevious,
      ws_distanceFromAnchor = ws_distanceFromAnchor st + ws_currentSegmentDistance st,
      ws_currentSegmentDistance = pointMag (pointSub intersection offsetPrevious),
      ws_pathVertices = ws_pathVertices st @ [offsetPrevious],
      ws_currentLineSegment = Some (pointSub intersection offsetPrevious)\<rparr>"

definition offsetPreviousOf :: "walk_state \<Rightarrow> point \<Rightarrow> point" where
  "offsetPreviousOf st prevToCurrentOffsetNormal =
     (case ws_offsetIntersectionPoint st of
        None \<Rightarrow> pointAdd (ws_currentVertex st) prevToCurrentOffsetNormal
      | Some p \<Rightarrow> p)"

definition walkBody :: "walk_params \<Rightarrow> walk_state \<Rightarrow> projection_cache \<Rightarrow> walk_step" where
  "walkBody W st cache =
     (let index = ws_currentIndex st + wp_direction W
      in if index < wp_lineStartIndex W \<or> index \<ge> wp_lineEndIndex W then ReturnNull
         else
           let sv = syntheticVertexArgsOf W st
           in case projectVertexToViewport index (wp_args W) sv cache of
                None \<Rightarrow> NotANumber
              | Some (current, cache) \<Rightarrow>
                  if wp_lineOffsetY W = 0 then Continue (plainSection st index current) cache
                  else
                    (case sectionNormal W sv index current (ws_currentVertex st) cache of
                       None \<Rightarrow> NotANumber
                     | Some (prevToCurrentOffsetNormal, cache) \<Rightarrow>
                         (case findOffsetIntersectionPoint (wp_findLineIntersection W) index
                                 prevToCurrentOffsetNormal current (wp_lineStartIndex W)
                                 (wp_lineEndIndex W)
                                 (offsetPreviousOf st prevToCurrentOffsetNormal)
                                 (wp_lineOffsetY W) (wp_args W) sv cache of
                            None \<Rightarrow> NotANumber
                          | Some (intersection, cache) \<Rightarrow>
                              Continue
                                (offsetSection st index current
                                   (offsetPreviousOf st prevToCurrentOffsetNormal) intersection)
                                cache)))"

text \<open>
  The loop, lines 692 to 735. The direction is 1 or -1, so every turn brings the index
  nearer to the end of the line it walks to; a direction of 0 never occurs and ends the
  walk here.
\<close>

function walk ::
    "walk_params \<Rightarrow> walk_state \<Rightarrow> projection_cache \<Rightarrow> (walk_state option \<times> projection_cache) option" where
  "walk W st cache =
     (if ws_distanceFromAnchor st + ws_currentSegmentDistance st \<le> wp_absOffsetX W
      then (case walkBody W st cache of
              ReturnNull \<Rightarrow> Some (None, cache)
            | NotANumber \<Rightarrow> None
            | Continue st' cache' \<Rightarrow> if wp_direction W = 0 then None else walk W st' cache')
      else Some (Some st, cache))"
  by pat_completeness auto

termination walk
proof (relation "measure (\<lambda>(W, st, cache).
          if 0 < wp_direction W then nat (wp_lineEndIndex W - ws_currentIndex st)
          else nat (ws_currentIndex st - wp_lineStartIndex W + 1))")
  show "wf (measure (\<lambda>(W, st, cache).
          if 0 < wp_direction W then nat (wp_lineEndIndex W - ws_currentIndex st)
          else nat (ws_currentIndex st - wp_lineStartIndex W + 1)))"
    by simp
next
  fix W st cache st' cache'
  assume step: "walkBody W st cache = Continue st' cache'" and d: "wp_direction W \<noteq> 0"
  from step have "ws_currentIndex st' = ws_currentIndex st + wp_direction W
      \<and> wp_lineStartIndex W \<le> ws_currentIndex st' \<and> ws_currentIndex st' < wp_lineEndIndex W"
    by (auto simp add: walkBody_def plainSection_def offsetSection_def Let_def
             split: if_splits option.splits prod.splits)
  with d show "((W, st', cache'), (W, st, cache)) \<in> measure (\<lambda>(W, st, cache).
          if 0 < wp_direction W then nat (wp_lineEndIndex W - ws_currentIndex st)
          else nat (ws_currentIndex st - wp_lineStartIndex W + 1))"
    by auto
qed

declare walk.simps [simp del]

text \<open>The glyph a call returns (lines 615 to 628).\<close>

record placed_glyph =
  pg_point :: point
  pg_angle :: real
  pg_path :: "point list"

text \<open>
  \<^verbatim>\<open>placeGlyphAlongLine\<close>: the direction and the angle (lines 650 to 663), the first
  index (lines 665 to 667), the anchor point (lines 670 to 678), the loop, and the
  interpolation on the segment the loop stopped on (lines 737 to 750). The result is
  \<open>None\<close> where the program leaves the reals, \<open>Some (None, cache)\<close> where it returns null.
\<close>

definition combinedOffset :: "real \<Rightarrow> real \<Rightarrow> bool \<Rightarrow> real" where
  "combinedOffset offsetX lineOffsetX flip =
     (if flip then offsetX - lineOffsetX else offsetX + lineOffsetX)"

definition walkDirection :: "real \<Rightarrow> bool \<Rightarrow> int" where
  "walkDirection combinedOffsetX flip =
     (let dir = (if combinedOffsetX > 0 then 1 else - 1)
      in if flip then dir * (- 1) else dir)"

definition walkAngle :: "real \<Rightarrow> bool \<Rightarrow> real" where
  "walkAngle combinedOffsetX flip =
     (let turned = (if flip then pi else 0)
      in if walkDirection combinedOffsetX flip < 0 then turned + pi else turned)"

definition anchorPointOf :: "projection_args \<Rightarrow> projection_cache \<Rightarrow> point \<times> projection_cache" where
  "anchorPointOf args cache =
     (case cachedAnchorPoint cache of
        Some p \<Rightarrow> (p, cache)
      | None \<Rightarrow>
          let anchorPoint = fst (projectTileCoordinatesToViewport args (tileAnchorPoint args))
          in (anchorPoint, cache\<lparr>cachedAnchorPoint := Some anchorPoint\<rparr>))"

definition walkParams ::
    "(point \<Rightarrow> point \<Rightarrow> point \<Rightarrow> point \<Rightarrow> point option) \<Rightarrow> projection_args \<Rightarrow> real \<Rightarrow> real \<Rightarrow> real
       \<Rightarrow> bool \<Rightarrow> int \<Rightarrow> int \<Rightarrow> walk_params" where
  "walkParams findLineIntersection args offsetX lineOffsetX lineOffsetY flip lineStartIndex
       lineEndIndex =
     \<lparr>wp_findLineIntersection = findLineIntersection, wp_args = args,
      wp_lineOffsetY = lineOffsetY,
      wp_direction = walkDirection (combinedOffset offsetX lineOffsetX flip) flip,
      wp_absOffsetX = \<bar>combinedOffset offsetX lineOffsetX flip\<bar>,
      wp_lineStartIndex = lineStartIndex, wp_lineEndIndex = lineEndIndex\<rparr>"

definition walkStart :: "int \<Rightarrow> int \<Rightarrow> int \<Rightarrow> point \<Rightarrow> walk_state" where
  "walkStart dir lineStartIndex anchorSegment anchorPoint =
     \<lparr>ws_currentIndex =
        (if dir > 0 then lineStartIndex + anchorSegment else lineStartIndex + anchorSegment + 1),
      ws_currentVertex = anchorPoint, ws_previousVertex = anchorPoint,
      ws_offsetIntersectionPoint = None, ws_offsetPreviousVertex = None,
      ws_distanceFromAnchor = 0, ws_currentSegmentDistance = 0, ws_pathVertices = [],
      ws_currentLineSegment = None\<rparr>"

definition glyphOnSegment :: "real \<Rightarrow> real \<Rightarrow> bool \<Rightarrow> walk_state \<Rightarrow> placed_glyph option" where
  "glyphOnSegment absOffset turned rotateToLine st =
     (case ws_currentLineSegment st of
        None \<Rightarrow> None
      | Some segment \<Rightarrow>
          if ws_currentSegmentDistance st = 0 then None
          else
            let segmentInterpolationT =
                  (absOffset - ws_distanceFromAnchor st) / ws_currentSegmentDistance st;
                p = pointAdd (pointMult segment segmentInterpolationT)
                      (case ws_offsetPreviousVertex st of
                         Some q \<Rightarrow> q
                       | None \<Rightarrow> ws_previousVertex st);
                segmentAngle =
                  turned + atan2 (snd (ws_currentVertex st) - snd (ws_previousVertex st))
                                (fst (ws_currentVertex st) - fst (ws_previousVertex st))
            in Some \<lparr>pg_point = p,
                     pg_angle = (if rotateToLine then segmentAngle else 0),
                     pg_path = ws_pathVertices st @ [p]\<rparr>)"

definition placeGlyphAlongLine ::
    "(point \<Rightarrow> point \<Rightarrow> point \<Rightarrow> point \<Rightarrow> point option) \<Rightarrow> real \<Rightarrow> real \<Rightarrow> real \<Rightarrow> bool \<Rightarrow> int \<Rightarrow> int
       \<Rightarrow> int \<Rightarrow> projection_args \<Rightarrow> bool \<Rightarrow> projection_cache
       \<Rightarrow> (placed_glyph option \<times> projection_cache) option" where
  "placeGlyphAlongLine findLineIntersection offsetX lineOffsetX lineOffsetY flip anchorSegment
       lineStartIndex lineEndIndex args rotateToLine cache =
     (let combinedOffsetX = combinedOffset offsetX lineOffsetX flip;
          W = walkParams findLineIntersection args offsetX lineOffsetX lineOffsetY flip
                lineStartIndex lineEndIndex;
          (anchorPoint, cache) = anchorPointOf args cache
      in case walk W (walkStart (wp_direction W) lineStartIndex anchorSegment anchorPoint) cache of
           None \<Rightarrow> None
         | Some (None, cache) \<Rightarrow> Some (None, cache)
         | Some (Some st, cache) \<Rightarrow>
             map_option (\<lambda>g. (Some g, cache))
               (glyphOnSegment (wp_absOffsetX W) (walkAngle combinedOffsetX flip) rotateToLine st))"


text \<open>
  What the placement reads of a symbol, and \<^verbatim>\<open>glyphOffsetArray.getoffsetX\<close> as a partial
  function of the glyph index.
\<close>

record symbol_instance =
  glyphStartIndex :: int
  numGlyphs :: int
  lineStartIndex :: int
  lineLength :: int
  segment :: int

text \<open>\<^verbatim>\<open>placeFirstAndLastGlyph\<close>, lines 287 to 314.\<close>

definition placeFirstAndLastGlyph ::
    "(point \<Rightarrow> point \<Rightarrow> point \<Rightarrow> point \<Rightarrow> point option) \<Rightarrow> real \<Rightarrow> (int \<rightharpoonup> real) \<Rightarrow> real \<Rightarrow> real \<Rightarrow> bool
       \<Rightarrow> symbol_instance \<Rightarrow> bool \<Rightarrow> projection_args \<Rightarrow> projection_cache
       \<Rightarrow> ((placed_glyph \<times> placed_glyph) option \<times> projection_cache) option" where
  "placeFirstAndLastGlyph findLineIntersection fontScale glyphOffsetArray lineOffsetX lineOffsetY
       flip symbol rotateToLine args cache =
     (let glyphEndIndex = glyphStartIndex symbol + numGlyphs symbol;
          lineStart = lineStartIndex symbol;
          lineEnd = lineStartIndex symbol + lineLength symbol
      in case glyphOffsetArray (glyphStartIndex symbol) of
           None \<Rightarrow> None
         | Some firstGlyphOffset \<Rightarrow>
             (case glyphOffsetArray (glyphEndIndex - 1) of
                None \<Rightarrow> None
              | Some lastGlyphOffset \<Rightarrow>
                  (case placeGlyphAlongLine findLineIntersection (fontScale * firstGlyphOffset)
                          lineOffsetX lineOffsetY flip (segment symbol) lineStart lineEnd args
                          rotateToLine cache of
                     None \<Rightarrow> None
                   | Some (None, cache) \<Rightarrow> Some (None, cache)
                   | Some (Some firstPlacedGlyph, cache) \<Rightarrow>
                       (case placeGlyphAlongLine findLineIntersection (fontScale * lastGlyphOffset)
                               lineOffsetX lineOffsetY flip (segment symbol) lineStart lineEnd args
                               rotateToLine cache of
                          None \<Rightarrow> None
                        | Some (None, cache) \<Rightarrow> Some (None, cache)
                        | Some (Some lastPlacedGlyph, cache) \<Rightarrow>
                            Some (Some (firstPlacedGlyph, lastPlacedGlyph), cache)))))"

text \<open>
  The loop over the glyphs between the first and the last, lines 373 to 377 of
  \<^verbatim>\<open>placeGlyphsAlongLine\<close>: it pushes what each call returns, null included.
\<close>

fun placeInteriorGlyphs ::
    "(point \<Rightarrow> point \<Rightarrow> point \<Rightarrow> point \<Rightarrow> point option) \<Rightarrow> real \<Rightarrow> (int \<rightharpoonup> real) \<Rightarrow> real \<Rightarrow> real \<Rightarrow> bool
       \<Rightarrow> symbol_instance \<Rightarrow> bool \<Rightarrow> projection_args \<Rightarrow> int list \<Rightarrow> projection_cache
       \<Rightarrow> (placed_glyph option list \<times> projection_cache) option" where
  "placeInteriorGlyphs findLineIntersection fontScale glyphOffsetArray lineOffsetX lineOffsetY
       flip symbol rotateToLine args [] cache = Some ([], cache)"
| "placeInteriorGlyphs findLineIntersection fontScale glyphOffsetArray lineOffsetX lineOffsetY
       flip symbol rotateToLine args (glyphIndex # rest) cache =
     (case glyphOffsetArray glyphIndex of
        None \<Rightarrow> None
      | Some offsetX \<Rightarrow>
          (case placeGlyphAlongLine findLineIntersection (fontScale * offsetX) lineOffsetX
                  lineOffsetY flip (segment symbol) (lineStartIndex symbol)
                  (lineStartIndex symbol + lineLength symbol) args rotateToLine cache of
             None \<Rightarrow> None
           | Some (placed, cache) \<Rightarrow>
               (case placeInteriorGlyphs findLineIntersection fontScale glyphOffsetArray
                       lineOffsetX lineOffsetY flip symbol rotateToLine args rest cache of
                  None \<Rightarrow> None
                | Some (glyphs, cache) \<Rightarrow> Some (placed # glyphs, cache))))"

definition interiorGlyphIndices :: "symbol_instance \<Rightarrow> int list" where
  "interiorGlyphIndices symbol =
     [glyphStartIndex symbol + 1 .. glyphStartIndex symbol + numGlyphs symbol - 2]"

subsection \<open>Auxiliary notions for the statements\<close>

text \<open>The antipode of a point of the unit sphere.\<close>

definition antipode :: "vec3 \<Rightarrow> vec3" where
  "antipode v = (case v of (a, b, c) \<Rightarrow> (- a, - b, - c))"

text \<open>
  The two fields \<^const>\<open>updateProjection\<close> writes besides the animation: neither is read by
  the animation, the error loop or \<^const>\<open>isRenderingDirty\<close>.
\<close>

definition withPlane :: "real option \<Rightarrow> vec4 \<Rightarrow> projection_manager \<Rightarrow> projection_manager" where
  "withPlane l p s = s\<lparr>errorQueryLatitudeDegrees := l, cachedClippingPlane := p\<rparr>"

text \<open>
  One rendered frame as the painter runs it: \<^const>\<open>updateProjection\<close>, then
  \<^const>\<open>updateGPUdependent\<close>; \<open>animFrame\<close> is the same frame without the two fields
  above.
\<close>

definition renderFrame ::
    "gl_env \<Rightarrow> real \<Rightarrow> transform \<Rightarrow> projection_manager \<Rightarrow> projection_manager" where
  "renderFrame env now t s = updateGPUdependent env now (updateProjection now t s)"

definition animFrame ::
    "gl_env \<Rightarrow> real \<Rightarrow> transform \<Rightarrow> projection_manager \<Rightarrow> projection_manager" where
  "animFrame env now t s = updateGPUdependent env now (updateAnimation now t s)"

text \<open>
  A map opened at zoom \<open>z\<close> over the equator, looking straight down; a GPU whose
  measured error is zero; and the manager of a map that starts with the globe enabled,
  the first animation skipped, after five frames at zoom 12, 16 ms apart from 5000 ms on.
\<close>

definition equatorCamera :: "real \<Rightarrow> transform" where
  "equatorCamera z =
     \<lparr>center_lng = 0, center_lat = 0, zoom = z, pitch = 0, angle = 0,
      worldSize = 512, cameraToCenterDistance = 600\<rparr>"

definition exactGpu :: gl_env where
  "exactGpu = \<lparr>webgl2 = True, waitResult = SIGNALED,
               pixel = \<lparr>byte0 = 0, byte1 = 0, byte2 = 0, byte3 = 255\<rparr>\<rparr>"

definition startedAtZoom12 :: projection_manager where
  "startedAtZoom12 =
     renderFrame exactGpu 5064 (equatorCamera 12)
       (renderFrame exactGpu 5048 (equatorCamera 12)
         (renderFrame exactGpu 5032 (equatorCamera 12)
           (renderFrame exactGpu 5016 (equatorCamera 12)
             (renderFrame exactGpu 5000 (equatorCamera 12)
               (skipNextProjectionTransitionAnimation (newProjectionManager (Some True)))))))"

definition startedAtZoom12Anim :: projection_manager where
  "startedAtZoom12Anim =
     animFrame exactGpu 5064 (equatorCamera 12)
       (animFrame exactGpu 5048 (equatorCamera 12)
         (animFrame exactGpu 5032 (equatorCamera 12)
           (animFrame exactGpu 5016 (equatorCamera 12)
             (animFrame exactGpu 5000 (equatorCamera 12)
               (skipNextProjectionTransitionAnimation (newProjectionManager (Some True)))))))"

text \<open>
  A globe transform at start-up (the constructor's values, at zoom 2), and the constants
  with the values \<^verbatim>\<open>projection_manager.ts\<close> gives them.
\<close>

definition startupGlobeTransform :: globe_transform where
  "startupGlobeTransform = \<lparr>gt_zoom = 2, gt_globeProjectionOverride = True, gt_lastGlobeStateEnabled = True,
     gt_lastGlobeChangeTime = - 1000, gt_lastLargeZoomStateChange = - 1000, gt_lastLargeZoomState = False,
     gt_globeness = 1, gt_skipNextAnimation = True\<rparr>"

definition usualGlobeConstants :: globe_constants where
  "usualGlobeConstants = \<lparr>gc_globeTransitionTimeSeconds = 0.5, gc_zoomTransitionTimeSeconds = 0.5, gc_maxGlobeZoom = 12\<rparr>"


text \<open>
  Options of a source with zoom levels 0 to 22. A globe at covering zoom 1 seen from
  straight above longitude 90 east, latitude about 66.5 south (Mercator coordinates
  (0.75, 0.75), the middle of tile (1, 1) of zoom 1); the tile (0, 0) of zoom 1, the north
  of the western hemisphere, lies wholly beyond the horizon. A flat map at covering zoom
  0 that renders world copies, so far out that every copy meets the frustum.
\<close>

definition plainOptions :: covering_options where
  "plainOptions =
     \<lparr>opt_tileSize = 512, opt_minzoom = Some 0, opt_maxzoom = Some 22,
      opt_reparseOverscaled = False, opt_terrain = None\<rparr>"

definition southEastView :: globe_view where
  "southEastView =
     \<lparr>gv_coveringZoomLevel = 1, gv_cameraCoord = (0.75, 0.75), gv_centerCoord = (0.75, 0.75),
      gv_isTileVisible =
        (\<lambda>x y z. if z = 1 \<and> x = 0 \<and> y = 0 then IntersectionNone else IntersectionPartial)\<rparr>"



subsection \<open>What the statements about the label placement say\<close>

text \<open>
  A point \<open>p\<close> is the projection of the vertex \<open>index\<close>, in front of the camera; the
  vertex lies on or behind the plane of the camera; every projection a cache holds is of
  the first kind. The cache a symbol starts with (line 235).
\<close>

definition inFront :: "projection_args \<Rightarrow> int \<Rightarrow> point \<Rightarrow> bool" where
  "inFront args index p =
     (case lineVertexArray args index of
        None \<Rightarrow> False
      | Some v \<Rightarrow> p = fst (projectTileCoordinatesToViewport args v)
                  \<and> 0 < snd (projectTileCoordinatesToViewport args v))"

definition behindCamera :: "projection_args \<Rightarrow> int \<Rightarrow> bool" where
  "behindCamera args index =
     (case lineVertexArray args index of
        None \<Rightarrow> False
      | Some v \<Rightarrow> snd (projectTileCoordinatesToViewport args v) \<le> 0)"

definition cacheTrue :: "projection_args \<Rightarrow> projection_cache \<Rightarrow> bool" where
  "cacheTrue args cache = (\<forall>index p. projections cache index = Some p \<longrightarrow> inFront args index p)"

definition emptyCache :: projection_cache where
  "emptyCache = \<lparr>projections = Map.empty, offsets = Map.empty, cachedAnchorPoint = None\<rparr>"

text \<open>
  A cache \<open>c'\<close> extends a cache \<open>c\<close>: it holds every entry of \<open>c\<close>, and the projections
  it holds besides are projections of vertices in front of the camera.
\<close>

definition cacheExtends :: "projection_args \<Rightarrow> projection_cache \<Rightarrow> projection_cache \<Rightarrow> bool" where
  "cacheExtends args c c' =
     ((\<forall>i p. projections c i = Some p \<longrightarrow> projections c' i = Some p)
      \<and> (\<forall>i p. projections c i = None \<longrightarrow> projections c' i = Some p \<longrightarrow> inFront args i p)
      \<and> (\<forall>i p. offsets c i = Some p \<longrightarrow> offsets c' i = Some p)
      \<and> (\<forall>p. cachedAnchorPoint c = Some p \<longrightarrow> cachedAnchorPoint c' = Some p))"

text \<open>
  The walk of a call: its parameters are \<^const>\<open>walkParams\<close>; it starts from
  \<open>walkBegin\<close>, the state before the loop with the cache that holds the anchor point.
  \<open>walkAfter W n\<close> is the state after \<open>n\<close> turns of the loop, when the loop makes as
  many; \<open>accumulated\<close> is the distance the loop compares with the offset, and
  \<open>leavesRange\<close> says that the next vertex is outside the line.
\<close>

definition walkBegin ::
    "walk_params \<Rightarrow> int \<Rightarrow> projection_cache \<Rightarrow> walk_state \<times> projection_cache" where
  "walkBegin W anchorSegment cache =
     (walkStart (wp_direction W) (wp_lineStartIndex W) anchorSegment
        (fst (anchorPointOf (wp_args W) cache)),
      snd (anchorPointOf (wp_args W) cache))"

definition accumulated :: "walk_state \<Rightarrow> real" where
  "accumulated st = ws_distanceFromAnchor st + ws_currentSegmentDistance st"

definition leavesRange :: "walk_params \<Rightarrow> walk_state \<Rightarrow> bool" where
  "leavesRange W st =
     (ws_currentIndex st + wp_direction W < wp_lineStartIndex W
      \<or> wp_lineEndIndex W \<le> ws_currentIndex st + wp_direction W)"

fun walkAfter ::
    "walk_params \<Rightarrow> nat \<Rightarrow> walk_state \<times> projection_cache \<Rightarrow> (walk_state \<times> projection_cache) option" where
  "walkAfter W 0 s = Some s"
| "walkAfter W (Suc n) s =
     (if accumulated (fst s) \<le> wp_absOffsetX W
      then (case walkBody W (fst s) (snd s) of
              Continue st' cache' \<Rightarrow> walkAfter W n (st', cache')
            | ReturnNull \<Rightarrow> None
            | NotANumber \<Rightarrow> None)
      else None)"

text \<open>
  The remaining length of the line from the anchor: the vertices the walk meets before it
  leaves the line, their projections, and the length of the path from the anchor point
  through them.
\<close>

definition walkIndices :: "int \<Rightarrow> int \<Rightarrow> int \<Rightarrow> int \<Rightarrow> int list" where
  "walkIndices dir lineStart lineEnd index =
     (if dir > 0 then (if index + 1 < lineStart then [] else [index + 1 .. lineEnd - 1])
      else (if lineEnd \<le> index - 1 then [] else rev [lineStart .. index - 1]))"

fun pathLength :: "point \<Rightarrow> point list \<Rightarrow> real" where
  "pathLength p [] = 0"
| "pathLength p (q # qs) = pointMag (pointSub q p) + pathLength q qs"

definition projected :: "projection_args \<Rightarrow> int \<Rightarrow> point" where
  "projected args index =
     (case lineVertexArray args index of
        None \<Rightarrow> (0, 0)
      | Some v \<Rightarrow> fst (projectTileCoordinatesToViewport args v))"

definition visible :: "projection_args \<Rightarrow> int \<Rightarrow> bool" where
  "visible args index =
     (case lineVertexArray args index of
        None \<Rightarrow> False
      | Some v \<Rightarrow> 0 < snd (projectTileCoordinatesToViewport args v))"

definition remainingLength :: "walk_params \<Rightarrow> walk_state \<Rightarrow> real" where
  "remainingLength W st =
     pathLength (ws_currentVertex st)
       (map (projected (wp_args W))
          (walkIndices (wp_direction W) (wp_lineStartIndex W) (wp_lineEndIndex W)
             (ws_currentIndex st)))"

text \<open>
  Two walks in the same direction over the same line, at the head of the loop: they
  \<open>agree\<close> when they stand at the same vertex with the same distances and the same
  offset intersection point, and, where the next segment is measured from the current
  vertex (no line offset, or no intersection point yet), with the same current vertex.
\<close>

definition agree :: "walk_params \<Rightarrow> walk_state \<Rightarrow> walk_state \<Rightarrow> bool" where
  "agree W st st' =
     (ws_currentIndex st' = ws_currentIndex st
      \<and> ws_distanceFromAnchor st' = ws_distanceFromAnchor st
      \<and> ws_currentSegmentDistance st' = ws_currentSegmentDistance st
      \<and> ws_offsetIntersectionPoint st' = ws_offsetIntersectionPoint st
      \<and> (wp_lineOffsetY W = 0 \<or> ws_offsetIntersectionPoint st = None
           \<longrightarrow> ws_currentVertex st' = ws_currentVertex st))"

text \<open>
  The glyph offsets of a symbol are in non-decreasing order: every glyph of the symbol has
  an offset, and the list of these offsets is sorted.
\<close>

definition glyphOffsets :: "(int \<rightharpoonup> real) \<Rightarrow> symbol_instance \<Rightarrow> real option list" where
  "glyphOffsets glyphOffsetArray symbol =
     map glyphOffsetArray [glyphStartIndex symbol .. glyphStartIndex symbol + numGlyphs symbol - 1]"

definition sortedOffsets :: "(int \<rightharpoonup> real) \<Rightarrow> symbol_instance \<Rightarrow> bool" where
  "sortedOffsets glyphOffsetArray symbol =
     (case those (glyphOffsets glyphOffsetArray symbol) of
        None \<Rightarrow> False
      | Some os \<Rightarrow> sorted os)"

text \<open>
  A line of four vertices, (0, 0), (10, 0), (20, 0) and (30, 0) in tile units, projected by
  the projection manager onto a viewport of 200 by 200: the tile point (x, y) goes to
  (x + 100, 100 - y), and the plane of the camera is x = 25, so the last vertex lies behind
  it. The anchor is (5, 0), on the first segment.
\<close>

definition straightLine :: projection_args where
  "straightLine =
     \<lparr>lineVertexArray = (\<lambda>i. if 0 \<le> i \<and> i \<le> 3 then Some (10 * real_of_int i, 0) else None),
      labelPlaneProject = (\<lambda>p. (p, 1)),
      managerProject = (\<lambda>p. ((fst p / 100, snd p / 100), 25 - fst p)),
      useSpecialProjectionForSymbols = True,
      tileAnchorPoint = (5, 0),
      pitchWithMap = False,
      width = 200,
      height = 200\<rparr>"

text \<open>
  The caches of that line after the anchor point was projected, after vertex 1 was, and
  after vertices 1 and 2 were.
\<close>

definition cacheA :: projection_cache where
  "cacheA = \<lparr>projections = Map.empty, offsets = Map.empty, cachedAnchorPoint = Some (105, 100)\<rparr>"

definition cacheB :: projection_cache where
  "cacheB = \<lparr>projections = [1 \<mapsto> (110, 100)], offsets = Map.empty,
             cachedAnchorPoint = Some (105, 100)\<rparr>"

definition cacheC :: projection_cache where
  "cacheC = \<lparr>projections = [1 \<mapsto> (110, 100), 2 \<mapsto> (120, 100)], offsets = Map.empty,
             cachedAnchorPoint = Some (105, 100)\<rparr>"

text \<open>
  A label of three glyphs on that line, with the offsets -3, 4 and 12, and the caches
  after its first and after its last glyph were placed.
\<close>

definition threeGlyphs :: symbol_instance where
  "threeGlyphs =
     \<lparr>glyphStartIndex = 0, numGlyphs = 3, lineStartIndex = 0, lineLength = 4, segment = 0\<rparr>"

definition threeOffsets :: "int \<rightharpoonup> real" where
  "threeOffsets = [0 \<mapsto> - 3, 1 \<mapsto> 4, 2 \<mapsto> 12]"

definition cacheD :: projection_cache where
  "cacheD = \<lparr>projections = [0 \<mapsto> (100, 100)], offsets = Map.empty,
             cachedAnchorPoint = Some (105, 100)\<rparr>"

definition cacheE :: projection_cache where
  "cacheE = \<lparr>projections = [0 \<mapsto> (100, 100), 1 \<mapsto> (110, 100), 2 \<mapsto> (120, 100)],
             offsets = Map.empty, cachedAnchorPoint = Some (105, 100)\<rparr>"

text \<open>
  \<^verbatim>\<open>findLineIntersection\<close> as the placement uses it: the point where the line through
  \<open>a1\<close> and \<open>a2\<close> meets the line through \<open>b1\<close> and \<open>b2\<close>, and null when the two are
  parallel.
\<close>

definition lineIntersection :: "point \<Rightarrow> point \<Rightarrow> point \<Rightarrow> point \<Rightarrow> point option" where
  "lineIntersection a1 a2 b1 b2 =
     (let aDeltaY = snd a2 - snd a1;
          aDeltaX = fst a2 - fst a1;
          bDeltaY = snd b2 - snd b1;
          bDeltaX = fst b2 - fst b1;
          denominator = bDeltaY * aDeltaX - bDeltaX * aDeltaY
      in if denominator = 0 then None
         else
           let originDeltaY = snd a1 - snd b1;
               originDeltaX = fst a1 - fst b1;
               aInterpolation = (bDeltaX * originDeltaY - bDeltaY * originDeltaX) / denominator
           in Some (fst a1 + aInterpolation * aDeltaX, snd a1 + aInterpolation * aDeltaY))"

text \<open>
  A line with a right angle, (0, 0), (100, 0), (100, 100), already in label plane units
  (the projection is the identity, every vertex in front of the camera), with the anchor
  on its first vertex; and the cache after a glyph was placed 210 units along it with the
  line offset -10.
\<close>

definition cornerLine :: projection_args where
  "cornerLine =
     \<lparr>lineVertexArray = [0 \<mapsto> (0, 0), 1 \<mapsto> (100, 0), 2 \<mapsto> (100, 100)],
      labelPlaneProject = (\<lambda>p. (p, 1)),
      managerProject = (\<lambda>p. (p, 1)),
      useSpecialProjectionForSymbols = False,
      tileAnchorPoint = (0, 0),
      pitchWithMap = True,
      width = 200,
      height = 200\<rparr>"

definition cornerCache :: projection_cache where
  "cornerCache =
     \<lparr>projections = [1 \<mapsto> (100, 0), 2 \<mapsto> (100, 100)],
      offsets = [1 \<mapsto> (110, - 10), 2 \<mapsto> (110, 100)],
      cachedAnchorPoint = Some (0, 0)\<rparr>"

text \<open>A label of three glyphs on this line, with the offsets 50, 150 and 210.\<close>

definition cornerGlyphs :: symbol_instance where
  "cornerGlyphs =
     \<lparr>glyphStartIndex = 0, numGlyphs = 3, lineStartIndex = 0, lineLength = 3, segment = 0\<rparr>"

definition cornerOffsets :: "int \<rightharpoonup> real" where
  "cornerOffsets = [0 \<mapsto> 50, 1 \<mapsto> 150, 2 \<mapsto> 210]"

text \<open>The caches on the way there.\<close>

definition cornerCacheA :: projection_cache where
  "cornerCacheA =
     \<lparr>projections = Map.empty, offsets = Map.empty, cachedAnchorPoint = Some (0, 0)\<rparr>"

definition cornerCacheB :: projection_cache where
  "cornerCacheB =
     \<lparr>projections = [1 \<mapsto> (100, 0)], offsets = Map.empty, cachedAnchorPoint = Some (0, 0)\<rparr>"

definition cornerCacheC :: projection_cache where
  "cornerCacheC =
     \<lparr>projections = [1 \<mapsto> (100, 0), 2 \<mapsto> (100, 100)], offsets = [1 \<mapsto> (110, - 10)],
      cachedAnchorPoint = Some (0, 0)\<rparr>"

text \<open>
  The path of a walk: before the first turn nothing is on it; after a turn the vertices
  pushed so far have the length \<^verbatim>\<open>distanceFromAnchor\<close>, the current segment starts at the
  last of them, and the vertex the next turn pushes is the end of that segment.
\<close>

definition atStart :: "walk_state \<Rightarrow> bool" where
  "atStart st =
     (ws_pathVertices st = [] \<and> ws_distanceFromAnchor st = 0
      \<and> ws_currentSegmentDistance st = 0 \<and> ws_offsetIntersectionPoint st = None)"

definition onPath :: "walk_params \<Rightarrow> walk_state \<Rightarrow> bool" where
  "onPath W st =
     (case ws_currentLineSegment st of
        None \<Rightarrow> False
      | Some seg \<Rightarrow>
          ws_pathVertices st \<noteq> []
          \<and> ws_currentSegmentDistance st = pointMag seg
          \<and> pathLength (hd (ws_pathVertices st)) (tl (ws_pathVertices st))
              = ws_distanceFromAnchor st
          \<and> (case ws_offsetPreviousVertex st of Some q \<Rightarrow> q | None \<Rightarrow> ws_previousVertex st)
              = last (ws_pathVertices st)
          \<and> (if wp_lineOffsetY W = 0
              then ws_offsetIntersectionPoint st = None
                   \<and> ws_currentVertex st = pointAdd (last (ws_pathVertices st)) seg
              else ws_offsetIntersectionPoint st
                     = Some (pointAdd (last (ws_pathVertices st)) seg)))"

definition noIntersection :: "point \<Rightarrow> point \<Rightarrow> point \<Rightarrow> point \<Rightarrow> point option" where
  "noIntersection a b c d = None"

section \<open>Theorems\<close>

subsection \<open>Read-back decoding\<close>

text \<open>
  C6. For every 4-byte read-back buffer the decoded error value is
  \<open>byte0/256 + byte1/65536 + byte2/16777216\<close>, negated when \<open>byte3 < 127\<close>, and then
  divided by 128: \<^const>\<open>parseRGBA8float\<close> computes exactly this rational expression
  of the four bytes.
\<close>

theorem parseRGBA8float_decodes:
  "parseRGBA8float buffer =
     decodedErrorSpec (unat (byte0 buffer)) (unat (byte1 buffer))
       (unat (byte2 buffer)) (unat (byte3 buffer))"
  by (simp add: parseRGBA8float_def decodedErrorSpec_def Let_def)

theorem parseRGBA8float_decodes_witness:
  "parseRGBA8float \<lparr>byte0 = 128, byte1 = 0, byte2 = 0, byte3 = 255\<rparr> = 1 / 256
   \<and> parseRGBA8float \<lparr>byte0 = 128, byte1 = 0, byte2 = 0, byte3 = 0\<rparr> = - (1 / 256)"
  using parseRGBA8float_decodes [of "\<lparr>byte0 = 128, byte1 = 0, byte2 = 0, byte3 = 255\<rparr>"]
        parseRGBA8float_decodes [of "\<lparr>byte0 = 128, byte1 = 0, byte2 = 0, byte3 = 0\<rparr>"]
  by (simp add: decodedErrorSpec_def)

subsection \<open>The error-measurement loop\<close>

lemma replay_append:
  "replay p (xs @ ys) = (case replay p xs of None \<Rightarrow> None | Some p' \<Rightarrow> replay p' ys)"
  by (induction p xs rule: replay.induct) auto

lemma lastResolvedFrom_append:
  "lastResolvedFrom r (xs @ ys) = lastResolvedFrom (lastResolvedFrom r xs) ys"
  by (induction r xs rule: lastResolvedFrom.induct) auto

lemma errorLoop_inv_step:
  assumes "replay False (glLog m) = Some (readbackQueue m \<noteq> None)"
      and "lastResolvedFrom (- 1000) (glLog m) = lastReadbackFrame m"
  shows "replay False (glLog (snd (updateErrorLoop env m)))
           = Some (readbackQueue (snd (updateErrorLoop env m)) \<noteq> None)
         \<and> lastResolvedFrom (- 1000) (glLog (snd (updateErrorLoop env m)))
           = lastReadbackFrame (snd (updateErrorLoop env m))"
  using assms
  unfolding updateErrorLoop_def tryReadback_def renderErrorTexture_def
    finishReadback_def logCalls_def Let_def
  by (auto simp: replay_append lastResolvedFrom_append split: option.splits)

lemma errorLoop_inv_run:
  assumes "replay False (glLog m) = Some (readbackQueue m \<noteq> None)"
      and "lastResolvedFrom (- 1000) (glLog m) = lastReadbackFrame m"
  shows "replay False (glLog (runErrorLoop m envs))
           = Some (readbackQueue (runErrorLoop m envs) \<noteq> None)
         \<and> lastResolvedFrom (- 1000) (glLog (runErrorLoop m envs))
           = lastReadbackFrame (runErrorLoop m envs)"
  using assms
proof (induction envs arbitrary: m)
  case Nil
  then show ?case by simp
next
  case (Cons env envs)
  from errorLoop_inv_step [OF Cons.prems, of env] show ?case
    by (simp add: Cons.IH)
qed

lemma draw_only_when_idle:
  assumes "Draw \<in> set (callsOf env m)"
  shows "readbackQueue m = None
         \<and> lastReadbackFrame m + measureWaitFrames \<le> updateCount m
         \<and> readbackQueue (snd (updateErrorLoop env m)) \<noteq> None"
  using assms
  unfolding callsOf_def updateErrorLoop_def tryReadback_def renderErrorTexture_def
    finishReadback_def logCalls_def Let_def
  by (auto split: option.splits if_splits)

text \<open>
  C7. In every state the error-measurement loop reaches from its constructor, at most
  one read-back is outstanding: the log of GL commands never issues a measurement while
  one is pending, and one is pending at its end exactly when the read-back queue is
  occupied. A call of the loop draws (and enqueues) a new measurement only when no
  read-back is pending and at least \<^const>\<open>measureWaitFrames\<close> frames have passed since
  the frame of the last resolved read-back; so a pending read-back is cleared before a
  new one is issued.
\<close>

theorem errorLoop_one_readback_outstanding:
  "let m = runErrorLoop (newErrorMeasurement isWebGL2) envs
   in pendingAfter (glLog m) = Some (awaitingQuery m)
      \<and> lastReadbackFrame m = lastResolved (glLog m)
      \<and> (Draw \<in> set (callsOf env m) \<longrightarrow>
            \<not> awaitingQuery m
            \<and> lastResolved (glLog m) + measureWaitFrames \<le> updateCount m
            \<and> awaitingQuery (snd (updateErrorLoop env m)))"
proof -
  define m where "m = runErrorLoop (newErrorMeasurement isWebGL2) envs"
  have inv: "replay False (glLog m) = Some (readbackQueue m \<noteq> None)
             \<and> lastResolvedFrom (- 1000) (glLog m) = lastReadbackFrame m"
    unfolding m_def
    by (rule errorLoop_inv_run) (simp_all add: newErrorMeasurement_def)
  have "Draw \<in> set (callsOf env m) \<longrightarrow>
          \<not> awaitingQuery m
          \<and> lastResolved (glLog m) + measureWaitFrames \<le> updateCount m
          \<and> awaitingQuery (snd (updateErrorLoop env m))"
    using draw_only_when_idle [of env m] inv
    by (simp add: awaitingQuery_def lastResolved_def)
  with inv show ?thesis
    by (simp add: m_def [symmetric] pendingAfter_def awaitingQuery_def lastResolved_def)
qed

theorem errorLoop_one_readback_outstanding_witness:
  "Draw \<in> set (callsOf exactGpu (newErrorMeasurement True))
   \<and> \<not> awaitingQuery (newErrorMeasurement True)
   \<and> pendingAfter (glLog (newErrorMeasurement True)) = Some False
   \<and> awaitingQuery (snd (updateErrorLoop exactGpu (newErrorMeasurement True)))"
proof -
  have d: "Draw \<in> set (callsOf exactGpu (newErrorMeasurement True))"
    by (simp add: callsOf_def updateErrorLoop_def renderErrorTexture_def logCalls_def
          newErrorMeasurement_def exactGpu_def allowWebGL2_def measureWaitFrames_def Let_def)
  from errorLoop_one_readback_outstanding [of True "[]" exactGpu] d show ?thesis
    by (simp add: Let_def)
qed

subsection \<open>The globe transition\<close>

lemma smoothStep01_range: "0 \<le> smoothStep 0 1 x \<and> smoothStep 0 1 x \<le> 1"
proof -
  define t where "t = clamp x 0 1"
  have t: "0 \<le> t" "t \<le> 1" by (auto simp: t_def clamp_def)
  have eq: "smoothStep 0 1 x = t * t * (3 - 2 * t)"
    by (simp add: smoothStep_def t_def Let_def)
  have "0 \<le> t * t * (3 - 2 * t)" using t by simp
  moreover have "1 - t * t * (3 - 2 * t) = (1 - t) * (1 - t) * (1 + 2 * t)"
    by (simp add: algebra_simps)
  moreover have "0 \<le> (1 - t) * (1 - t) * (1 + 2 * t)" using t by simp
  ultimately show ?thesis using eq by linarith
qed

lemma smoothStep01_0: "smoothStep 0 1 0 = 0"
  by (simp add: smoothStep_def clamp_def)

lemma smoothStep01_1: "smoothStep 0 1 1 = 1"
  by (simp add: smoothStep_def clamp_def)

lemma updateGlobeTransition_Some:
  "\<exists>g. globeness (updateGlobeTransition now s) = Some g"
  by (simp add: updateGlobeTransition_def Let_def)

lemma updateGlobeTransition_skip:
  "skipNextAnimation s \<Longrightarrow>
     globeness (updateGlobeTransition now s) = Some (if isGlobeEnabled s then 1 else 0)"
  by (simp add: updateGlobeTransition_def Let_def)

lemma updateGlobeTransition_fields:
  "lastLargeZoomState (updateGlobeTransition now s) = lastLargeZoomState s"
  "lastLargeZoomStateChange (updateGlobeTransition now s) = lastLargeZoomStateChange s"
  "\<not> skipNextAnimation (updateGlobeTransition now s)"
  by (simp_all add: updateGlobeTransition_def Let_def)

lemma updateZoomTransition_globeness:
  "globeness (updateZoomTransition now t s) =
     map_option (\<lambda>g. smoothStep 0 1 (min g (zoomGlobenessBound now t (noteZoomState now t s))))
       (globeness s)"
  by (cases "globeness s") (simp_all add: updateZoomTransition_def Let_def noteZoomState_def)

lemma zoomGlobenessBound_range:
  "0 \<le> zoomGlobenessBound now t s \<and> zoomGlobenessBound now t s \<le> 1"
  by (simp add: zoomGlobenessBound_def Let_def)

lemma zoomGlobenessBound_settled:
  "zoom t < maxGlobeZoom \<Longrightarrow> \<not> lastLargeZoomState s \<Longrightarrow>
   1000 * zoomTransitionTimeSeconds \<le> now - lastLargeZoomStateChange s \<Longrightarrow>
     zoomGlobenessBound now t (noteZoomState now t s) = 1"
  by (simp add: zoomGlobenessBound_def noteZoomState_def Let_def zoomTransitionTimeSeconds_def)

lemma updateAnimation_globeness:
  "\<exists>g. globeness (updateAnimation now t s) = Some g \<and> 0 \<le> g \<and> g \<le> 1"
proof -
  obtain g0 where "globeness (updateGlobeTransition now s) = Some g0"
    using updateGlobeTransition_Some by blast
  then show ?thesis
    by (simp add: updateAnimation_def updateZoomTransition_globeness smoothStep01_range)
qed

lemma updateAnimation_skip_off:
  "skipNextAnimation s \<Longrightarrow> \<not> isGlobeEnabled s \<Longrightarrow>
     globeness (updateAnimation now t s) = Some 0"
  using zoomGlobenessBound_range [of now t "noteZoomState now t (updateGlobeTransition now s)"]
  by (simp add: updateAnimation_def updateZoomTransition_globeness updateGlobeTransition_skip
        smoothStep01_0 min_def)

lemma updateAnimation_skip_on:
  "skipNextAnimation s \<Longrightarrow> isGlobeEnabled s \<Longrightarrow> zoom t < maxGlobeZoom \<Longrightarrow>
   \<not> lastLargeZoomState s \<Longrightarrow>
   1000 * zoomTransitionTimeSeconds \<le> now - lastLargeZoomStateChange s \<Longrightarrow>
     globeness (updateAnimation now t s) = Some 1"
  by (simp add: updateAnimation_def updateZoomTransition_globeness updateGlobeTransition_skip
        zoomGlobenessBound_settled updateGlobeTransition_fields smoothStep01_1)

lemma updateProjection_globeness:
  "globeness (updateProjection now t s) =
     globeness (updateAnimation now t (s\<lparr>errorQueryLatitudeDegrees := Some (center_lat t)\<rparr>))"
  by (simp add: updateProjection_def Let_def)

lemma frameUpdate_globeness:
  "\<exists>g. globeness (frameUpdate f s) = Some g \<and> 0 \<le> g \<and> g \<le> 1"
  by (simp add: frameUpdate_def Let_def updateProjection_globeness updateAnimation_globeness)

lemma runFrames_globeness:
  "s' \<in> set (runFrames s fs) \<Longrightarrow> \<exists>g. globeness s' = Some g \<and> 0 \<le> g \<and> g \<le> 1"
  by (induction fs arbitrary: s) (auto simp: Let_def frameUpdate_globeness)

lemma updateAnimationGT_globeness_eq:
  "gt_globeness (updateAnimationGT gc ease now s) =
     ease (min (gt_globeness (updateGlobeTransitionGT gc now s))
               (zoomGlobenessBoundGT gc now
                  (noteZoomStateGT gc now (updateGlobeTransitionGT gc now s))))"
  by (simp add: updateAnimationGT_def updateZoomTransitionGT_def Let_def noteZoomStateGT_def)

lemma updateGlobeTransitionGT_range:
  "0 \<le> gt_globeness (updateGlobeTransitionGT gc now s)
   \<and> gt_globeness (updateGlobeTransitionGT gc now s) \<le> 1"
  by (simp add: updateGlobeTransitionGT_def Let_def)

lemma zoomGlobenessBoundGT_range:
  "0 \<le> zoomGlobenessBoundGT gc now s \<and> zoomGlobenessBoundGT gc now s \<le> 1"
  by (simp add: zoomGlobenessBoundGT_def Let_def)

lemma updateGlobeTransitionGT_skip:
  "gt_skipNextAnimation s \<Longrightarrow>
     gt_globeness (updateGlobeTransitionGT gc now s)
       = (if gt_globeProjectionOverride s then 1 else 0)"
  by (simp add: updateGlobeTransitionGT_def Let_def)

lemma updateGlobeTransitionGT_fields:
  "gt_lastLargeZoomState (updateGlobeTransitionGT gc now s) = gt_lastLargeZoomState s"
  "gt_lastLargeZoomStateChange (updateGlobeTransitionGT gc now s) = gt_lastLargeZoomStateChange s"
  "gt_zoom (updateGlobeTransitionGT gc now s) = gt_zoom s"
  by (simp_all add: updateGlobeTransitionGT_def Let_def)

lemma zoomGlobenessBoundGT_settled:
  "0 < gc_zoomTransitionTimeSeconds gc \<Longrightarrow> gt_zoom s < gc_maxGlobeZoom gc \<Longrightarrow>
   \<not> gt_lastLargeZoomState s \<Longrightarrow>
   1000 * gc_zoomTransitionTimeSeconds gc \<le> now - gt_lastLargeZoomStateChange s \<Longrightarrow>
     zoomGlobenessBoundGT gc now (noteZoomStateGT gc now s) = 1"
  by (simp add: zoomGlobenessBoundGT_def noteZoomStateGT_def Let_def min_def max_def field_simps)

lemma updateAnimationGT_range:
  assumes "\<forall>x. 0 \<le> x \<and> x \<le> 1 \<longrightarrow> 0 \<le> ease x \<and> ease x \<le> 1"
  shows "0 \<le> gt_globeness (updateAnimationGT gc ease now s)
         \<and> gt_globeness (updateAnimationGT gc ease now s) \<le> 1"
proof -
  let ?g = "gt_globeness (updateGlobeTransitionGT gc now s)"
  let ?b = "zoomGlobenessBoundGT gc now (noteZoomStateGT gc now (updateGlobeTransitionGT gc now s))"
  have "0 \<le> min ?g ?b \<and> min ?g ?b \<le> 1"
    using updateGlobeTransitionGT_range [of gc now s]
      zoomGlobenessBoundGT_range [of gc now "noteZoomStateGT gc now (updateGlobeTransitionGT gc now s)"]
    by (simp add: min_def)
  then show ?thesis using assms by (simp add: updateAnimationGT_globeness_eq)
qed

lemma updateAnimationGT_skip_off:
  assumes "ease 0 = 0" "gt_skipNextAnimation s" "\<not> gt_globeProjectionOverride s"
  shows "gt_globeness (updateAnimationGT gc ease now s) = 0"
  using assms
    zoomGlobenessBoundGT_range [of gc now "noteZoomStateGT gc now (updateGlobeTransitionGT gc now s)"]
  by (simp add: updateAnimationGT_globeness_eq updateGlobeTransitionGT_skip min_def)

lemma updateAnimationGT_skip_on:
  assumes "ease 1 = 1" "gt_skipNextAnimation s" "gt_globeProjectionOverride s"
      and "0 < gc_zoomTransitionTimeSeconds gc" "gt_zoom s < gc_maxGlobeZoom gc"
      and "\<not> gt_lastLargeZoomState s"
      and "1000 * gc_zoomTransitionTimeSeconds gc \<le> now - gt_lastLargeZoomStateChange s"
  shows "gt_globeness (updateAnimationGT gc ease now s) = 1"
  using assms
  by (simp add: updateAnimationGT_globeness_eq updateGlobeTransitionGT_skip
        zoomGlobenessBoundGT_settled updateGlobeTransitionGT_fields)

text \<open>
  C5. Whatever the sequence of frames (each may toggle the globe flag, ask to skip the
  animation, and bring any time and any zoom), the globeness is a number in \<open>[0, 1]\<close>
  after every \<^const>\<open>updateProjection\<close>. When the skip flag is set, the update sets it to
  exactly 0 if the globe is disabled, and to exactly 1 if the globe is enabled and the
  zoom permits it: the zoom is below \<^const>\<open>maxGlobeZoom\<close> and no zoom transition is under
  way (the large-zoom state was off, for at least the duration of the zoom transition).
  The same holds of \<^verbatim>\<open>GlobeTransform._updateAnimation\<close> for every easing curve that maps
  \<open>[0, 1]\<close> into itself and fixes 0 and 1.
\<close>

theorem globeness_in_unit_interval:
  "(\<forall>s' \<in> set (runFrames s fs). \<exists>g. globeness s' = Some g \<and> 0 \<le> g \<and> g \<le> 1)
   \<and> (skipNextAnimation s \<and> \<not> isGlobeEnabled s \<longrightarrow>
         globeness (updateProjection now t s) = Some 0)
   \<and> (skipNextAnimation s \<and> isGlobeEnabled s \<and> zoom t < maxGlobeZoom
        \<and> \<not> lastLargeZoomState s
        \<and> 1000 * zoomTransitionTimeSeconds \<le> now - lastLargeZoomStateChange s \<longrightarrow>
         globeness (updateProjection now t s) = Some 1)
   \<and> ((\<forall>x. 0 \<le> x \<and> x \<le> 1 \<longrightarrow> 0 \<le> ease x \<and> ease x \<le> 1) \<longrightarrow>
         0 \<le> gt_globeness (updateAnimationGT gc ease now gs)
         \<and> gt_globeness (updateAnimationGT gc ease now gs) \<le> 1)
   \<and> (ease 0 = 0 \<and> gt_skipNextAnimation gs \<and> \<not> gt_globeProjectionOverride gs \<longrightarrow>
         gt_globeness (updateAnimationGT gc ease now gs) = 0)
   \<and> (ease 1 = 1 \<and> gt_skipNextAnimation gs \<and> gt_globeProjectionOverride gs
        \<and> 0 < gc_zoomTransitionTimeSeconds gc \<and> gt_zoom gs < gc_maxGlobeZoom gc
        \<and> \<not> gt_lastLargeZoomState gs
        \<and> 1000 * gc_zoomTransitionTimeSeconds gc \<le> now - gt_lastLargeZoomStateChange gs \<longrightarrow>
         gt_globeness (updateAnimationGT gc ease now gs) = 1)"
proof (intro conjI ballI impI)
  fix s' assume "s' \<in> set (runFrames s fs)"
  then show "\<exists>g. globeness s' = Some g \<and> 0 \<le> g \<and> g \<le> 1"
    by (rule runFrames_globeness)
next
  assume "skipNextAnimation s \<and> \<not> isGlobeEnabled s"
  then show "globeness (updateProjection now t s) = Some 0"
    by (simp add: updateProjection_globeness updateAnimation_skip_off isGlobeEnabled_def)
next
  assume "skipNextAnimation s \<and> isGlobeEnabled s \<and> zoom t < maxGlobeZoom
        \<and> \<not> lastLargeZoomState s
        \<and> 1000 * zoomTransitionTimeSeconds \<le> now - lastLargeZoomStateChange s"
  then show "globeness (updateProjection now t s) = Some 1"
    by (simp add: updateProjection_globeness updateAnimation_skip_on isGlobeEnabled_def)
next
  assume "\<forall>x. 0 \<le> x \<and> x \<le> 1 \<longrightarrow> 0 \<le> ease x \<and> ease x \<le> 1"
  then show "0 \<le> gt_globeness (updateAnimationGT gc ease now gs)"
    and "gt_globeness (updateAnimationGT gc ease now gs) \<le> 1"
    using updateAnimationGT_range [of ease gc now gs] by simp_all
next
  assume "ease 0 = 0 \<and> gt_skipNextAnimation gs \<and> \<not> gt_globeProjectionOverride gs"
  then show "gt_globeness (updateAnimationGT gc ease now gs) = 0"
    by (simp add: updateAnimationGT_skip_off)
next
  assume "ease 1 = 1 \<and> gt_skipNextAnimation gs \<and> gt_globeProjectionOverride gs
        \<and> 0 < gc_zoomTransitionTimeSeconds gc \<and> gt_zoom gs < gc_maxGlobeZoom gc
        \<and> \<not> gt_lastLargeZoomState gs
        \<and> 1000 * gc_zoomTransitionTimeSeconds gc \<le> now - gt_lastLargeZoomStateChange gs"
  then show "gt_globeness (updateAnimationGT gc ease now gs) = 1"
    by (simp add: updateAnimationGT_skip_on)
qed

theorem globeness_in_unit_interval_witness:
  "globeness (updateProjection 5000 (equatorCamera 2)
      (skipNextProjectionTransitionAnimation (newProjectionManager (Some True)))) = Some 1
   \<and> (\<exists>g. globeness (frameUpdate
          \<lparr>setGlobeEnabled = False, requestSkip = False, frameTime = 5100, camera = equatorCamera 13\<rparr>
          (skipNextProjectionTransitionAnimation (newProjectionManager (Some True)))) = Some g
        \<and> 0 \<le> g \<and> g \<le> 1)
   \<and> gt_globeness (updateAnimationGT usualGlobeConstants (smoothStep 0 1) 5000 startupGlobeTransform) = 1"
proof -
  let ?s = "skipNextProjectionTransitionAnimation (newProjectionManager (Some True))"
  let ?f = "\<lparr>setGlobeEnabled = False, requestSkip = False, frameTime = 5100, camera = equatorCamera 13\<rparr>"
  note th = globeness_in_unit_interval [of ?s "[?f]" 5000 "equatorCamera 2" "smoothStep 0 1" usualGlobeConstants startupGlobeTransform]
  have a: "skipNextAnimation ?s \<and> isGlobeEnabled ?s \<and> zoom (equatorCamera 2) < maxGlobeZoom
        \<and> \<not> lastLargeZoomState ?s
        \<and> 1000 * zoomTransitionTimeSeconds \<le> 5000 - lastLargeZoomStateChange ?s"
    by (simp add: skipNextProjectionTransitionAnimation_def newProjectionManager_def
          isGlobeEnabled_def equatorCamera_def maxGlobeZoom_def zoomTransitionTimeSeconds_def)
  have b: "smoothStep 0 1 1 = 1 \<and> gt_skipNextAnimation startupGlobeTransform \<and> gt_globeProjectionOverride startupGlobeTransform
        \<and> 0 < gc_zoomTransitionTimeSeconds usualGlobeConstants \<and> gt_zoom startupGlobeTransform < gc_maxGlobeZoom usualGlobeConstants
        \<and> \<not> gt_lastLargeZoomState startupGlobeTransform
        \<and> 1000 * gc_zoomTransitionTimeSeconds usualGlobeConstants \<le> 5000 - gt_lastLargeZoomStateChange startupGlobeTransform"
    by (simp add: smoothStep01_1 startupGlobeTransform_def usualGlobeConstants_def)
  from th a b show ?thesis by (simp add: Let_def)
qed

subsection \<open>The clipping plane\<close>

lemma dot_identity:
  fixes v1 v2 ca sa cp sp cl sl :: real
  assumes "sl * sl + cl * cl = 1" "sp * sp + cp * cp = 1"
  shows "((v2 * cp - v1 * ca * sp) * sl - v1 * sa * cl) * (sl * cp)
         + (v1 * ca * cp + v2 * sp) * sp
         + ((v2 * cp - v1 * ca * sp) * cl + v1 * sa * sl) * (cl * cp) = v2"
proof -
  have "((v2 * cp - v1 * ca * sp) * sl - v1 * sa * cl) * (sl * cp)
         + (v1 * ca * cp + v2 * sp) * sp
         + ((v2 * cp - v1 * ca * sp) * cl + v1 * sa * sl) * (cl * cp)
      = v2 * (cp * cp) * (sl * sl + cl * cl) + v2 * (sp * sp)
        + v1 * ca * (sp * cp) * (1 - (sl * sl + cl * cl))"
    by algebra
  also have "\<dots> = v2 * (sp * sp + cp * cp)"
    unfolding assms(1) by (simp add: algebra_simps)
  finally show ?thesis by (simp add: assms(2))
qed

lemma rotated_normal_dot_center:
  fixes v1 v2 a p l :: real
  defines "n \<equiv> vec3_rotateY (vec3_rotateX (vec3_rotateZ (0, v1, v2) (0, 0, 0) a)
                   (0, 0, 0) (- p)) (0, 0, 0) l"
  shows "fst n * (sin l * cos p) + fst (snd n) * sin p + snd (snd n) * (cos l * cos p) = v2"
proof -
  have sl: "sin l * sin l + cos l * cos l = 1"
    using sin_cos_squared_add [of l] by (simp add: power2_eq_square)
  have sp: "sin p * sin p + cos p * cos p = 1"
    using sin_cos_squared_add [of p] by (simp add: power2_eq_square)
  show ?thesis
    using dot_identity [OF sl sp, of v2 v1 "cos a" "sin a"]
    by (simp add: n_def Let_def)
qed

lemma planeDot_scaled:
  "planeDot (case vec3_scale n k of (n0, n1, n2) \<Rightarrow> (n0, n1, n2, d)) (c0, c1, c2)
     = k * (fst n * c0 + fst (snd n) * c1 + snd (snd n) * c2) + d"
  by (cases n) (simp add: algebra_simps)

lemma computeClippingPlane_dots:
  fixes t :: transform and R :: real
  defines "th \<equiv> pitch t * pi / 180"
  defines "dB \<equiv> cameraToCenterDistance t / R"
  defines "L \<equiv> sqrt ((sin th * dB) * (sin th * dB) + (cos th * dB + 1) * (cos th * dB + 1))"
  defines "c \<equiv> angularCoordinatesToVector (center_lng t * pi / 180) (center_lat t * pi / 180)"
  shows "planeDot (computeClippingPlane t R) c = ((cos th * dB + 1) / L - 1 / L) / 4"
    and "planeDot (computeClippingPlane t R) (antipode c) = - ((cos th * dB + 1) / L + 1 / L) / 4"
proof -
  define L' where
    "L' = sqrt (- (sin th * dB) * - (sin th * dB) + (cos th * dB + 1) * (cos th * dB + 1))"
  define n where
    "n = vec3_rotateY (vec3_rotateX (vec3_rotateZ (0, - (sin th * dB) / L', (cos th * dB + 1) / L')
           (0, 0, 0) (angle t)) (0, 0, 0) (- 1 * center_lat t * pi / 180))
           (0, 0, 0) (center_lng t * pi / 180)"
  have plane: "computeClippingPlane t R =
      (case vec3_scale n 0.25 of (n0, n1, n2) \<Rightarrow> (n0, n1, n2, - (1 / L * 1) * 0.25))"
    unfolding computeClippingPlane_def Let_def n_def th_def dB_def L_def L'_def ..
  have L': "L' = L" by (simp add: L'_def L_def)
  have lat: "- 1 * center_lat t * pi / 180 = - (center_lat t * pi / 180)" by simp
  have dot: "fst n * (sin (center_lng t * pi / 180) * cos (center_lat t * pi / 180))
       + fst (snd n) * sin (center_lat t * pi / 180)
       + snd (snd n) * (cos (center_lng t * pi / 180) * cos (center_lat t * pi / 180))
       = (cos th * dB + 1) / L"
    unfolding n_def lat L' by (rule rotated_normal_dot_center)
  have g: "\<And>a b::real. 0.25 * a + - (b * 1) * 0.25 = (a - b) / 4"
    by (simp add: field_simps)
  have g': "\<And>a b::real. 0.25 * - a + - (b * 1) * 0.25 = - (a + b) / 4"
    by (simp add: field_simps)
  show "planeDot (computeClippingPlane t R) c = ((cos th * dB + 1) / L - 1 / L) / 4"
    by (simp only: plane c_def angularCoordinatesToVector_def Let_def planeDot_scaled dot g)
  have dot': "fst n * (- (sin (center_lng t * pi / 180) * cos (center_lat t * pi / 180)))
       + fst (snd n) * (- sin (center_lat t * pi / 180))
       + snd (snd n) * (- (cos (center_lng t * pi / 180) * cos (center_lat t * pi / 180)))
       = - ((cos th * dB + 1) / L)"
    using dot by (simp add: algebra_simps)
  show "planeDot (computeClippingPlane t R) (antipode c) = - ((cos th * dB + 1) / L + 1 / L) / 4"
    by (simp only: plane c_def angularCoordinatesToVector_def Let_def antipode_def prod.case
          planeDot_scaled dot' g')
qed

lemma clippingPlane_signs:
  fixes t :: transform and R :: real
  assumes "0 < cos (pitch t * pi / 180)" "0 < cameraToCenterDistance t" "0 < R"
  defines "c \<equiv> angularCoordinatesToVector (center_lng t * pi / 180) (center_lat t * pi / 180)"
  shows "0 < planeDot (computeClippingPlane t R) c
         \<and> planeDot (computeClippingPlane t R) (antipode c) < 0"
proof -
  define th where "th = pitch t * pi / 180"
  define dB where "dB = cameraToCenterDistance t / R"
  define L where
    "L = sqrt ((sin th * dB) * (sin th * dB) + (cos th * dB + 1) * (cos th * dB + 1))"
  have dB: "0 < dB" using assms by (simp add: dB_def)
  have cd: "0 < cos th * dB" using assms(1) dB by (simp add: th_def)
  have "0 < (sin th * dB) * (sin th * dB) + (cos th * dB + 1) * (cos th * dB + 1)"
  proof -
    have "0 \<le> (sin th * dB) * (sin th * dB)" by simp
    moreover have "0 < (cos th * dB + 1) * (cos th * dB + 1)" using cd by simp
    ultimately show ?thesis by linarith
  qed
  then have L: "0 < L" by (simp add: L_def)
  have e1: "planeDot (computeClippingPlane t R) c = ((cos th * dB + 1) / L - 1 / L) / 4"
    unfolding c_def th_def dB_def L_def by (rule computeClippingPlane_dots(1))
  have e2: "planeDot (computeClippingPlane t R) (antipode c)
              = - ((cos th * dB + 1) / L + 1 / L) / 4"
    unfolding c_def th_def dB_def L_def by (rule computeClippingPlane_dots(2))
  have "(cos th * dB + 1) / L - 1 / L = (cos th * dB) / L"
    by (simp add: diff_divide_distrib [symmetric])
  moreover have "0 < (cos th * dB) / L" using cd L by simp
  ultimately have pos: "0 < planeDot (computeClippingPlane t R) c"
    using e1 by simp
  have "(cos th * dB + 1) / L + 1 / L = (cos th * dB + 2) / L"
    by (simp add: add_divide_distrib [symmetric])
  moreover have "0 < (cos th * dB + 2) / L" using cd L by simp
  ultimately have neg: "planeDot (computeClippingPlane t R) (antipode c) < 0"
    using e2 by simp
  show ?thesis using pos neg by simp
qed

lemma cos_degrees_pos:
  fixes d :: real
  assumes "- 90 < d" "d < 90"
  shows "0 < cos (d * pi / 180)"
proof (rule cos_gt_zero_pi)
  have "d * pi < 90 * pi"
    using mult_strict_right_mono [OF assms(2) pi_gt_zero] .
  then show "d * pi / 180 < pi / 2" by simp
  have "- 90 * pi < d * pi"
    using mult_strict_right_mono [OF assms(1) pi_gt_zero] .
  then show "- (pi / 2) < d * pi / 180" by simp
qed

text \<open>
  C4. For every camera of the spherical projection (pitch and centre latitude strictly
  between -90 and 90 degrees, a positive world size and a positive camera distance),
  the clipping plane \<^const>\<open>updateProjection\<close> caches puts the point of the unit sphere at
  the map centre strictly on the positive side and its antipode strictly on the
  negative side; and \<^verbatim>\<open>isOccluded\<close> (of GlobeTransform, and of ProjectionManager while
  the globe is enabled) answers true exactly when the sphere point of the tile
  coordinate evaluates below zero against that plane.
\<close>

theorem clippingPlane_classifies_center:
  assumes "- 90 < pitch t" "pitch t < 90"
      and "- 90 < center_lat t" "center_lat t < 90"
      and "0 < worldSize t" "0 < cameraToCenterDistance t"
  shows "let plane = cachedClippingPlane (updateProjection now t s);
             c = angularCoordinatesToVector (center_lng t * pi / 180) (center_lat t * pi / 180)
         in 0 < planeDot plane c
            \<and> planeDot plane (antipode c) < 0
            \<and> (\<forall>modf x y tileID.
                  isOccluded modf plane x y tileID
                    = (planeDot plane (projectTileCoordinatesToSphere modf x y tileID) < 0))
            \<and> (\<forall>x y tileID.
                  isOccludedPM True plane x y tileID
                    = (planeDot plane (tileToSphere x y tileID) < 0))"
proof -
  have plane: "cachedClippingPlane (updateProjection now t s)
                 = computeClippingPlane t (globeRadiusPixels t)"
    by (simp add: updateProjection_def Let_def)
  have "0 < cos (center_lat t * pi / 180)"
    using assms(3,4) by (rule cos_degrees_pos)
  then have R: "0 < globeRadiusPixels t"
    using assms(5) by (simp add: globeRadiusPixels_def)
  have "0 < cos (pitch t * pi / 180)"
    using assms(1,2) by (rule cos_degrees_pos)
  from clippingPlane_signs [OF this assms(6) R]
  show ?thesis
    by (simp add: plane Let_def isOccluded_def isOccludedPM_def)
qed

theorem clippingPlane_classifies_center_witness:
  "0 < planeDot (cachedClippingPlane (updateProjection 0 (equatorCamera 2) (newProjectionManager (Some True))))
        (angularCoordinatesToVector 0 0)
   \<and> planeDot (cachedClippingPlane (updateProjection 0 (equatorCamera 2) (newProjectionManager (Some True))))
        (antipode (angularCoordinatesToVector 0 0)) < 0"
  using clippingPlane_classifies_center
          [of "equatorCamera 2" 0 "newProjectionManager (Some True)"]
  by (simp add: equatorCamera_def Let_def)

subsection \<open>isRenderingDirty\<close>

lemma isGlobeEnabled_withPlane: "isGlobeEnabled (withPlane l p s) = isGlobeEnabled s"
  by (simp add: isGlobeEnabled_def withPlane_def)

lemma updateGlobeTransition_withPlane:
  "updateGlobeTransition now (withPlane l p s) = withPlane l p (updateGlobeTransition now s)"
  unfolding updateGlobeTransition_def Let_def isGlobeEnabled_withPlane
  by (simp add: withPlane_def)

lemma noteZoomState_withPlane:
  "noteZoomState now t (withPlane l p s) = withPlane l p (noteZoomState now t s)"
  by (simp add: noteZoomState_def withPlane_def Let_def)

lemma zoomGlobenessBound_withPlane:
  "zoomGlobenessBound now t (withPlane l p s) = zoomGlobenessBound now t s"
  by (simp add: zoomGlobenessBound_def withPlane_def Let_def)

lemma updateZoomTransition_withPlane:
  "updateZoomTransition now t (withPlane l p s) = withPlane l p (updateZoomTransition now t s)"
  unfolding updateZoomTransition_def Let_def noteZoomState_withPlane zoomGlobenessBound_withPlane
  by (simp add: withPlane_def)

lemma updateAnimation_withPlane:
  "updateAnimation now t (withPlane l p s) = withPlane l p (updateAnimation now t s)"
  by (simp only: updateAnimation_def updateGlobeTransition_withPlane updateZoomTransition_withPlane)

lemma updateGPUdependent_withPlane:
  "updateGPUdependent env now (withPlane l p s) = withPlane l p (updateGPUdependent env now s)"
proof (cases "fst (updateErrorLoop env (case errorMeasurement s of
                 None \<Rightarrow> newErrorMeasurement (webgl2 env) | Some m \<Rightarrow> m))
              = errorMeasurementLastValue s")
  case True
  then show ?thesis
    by (simp add: updateGPUdependent_def withPlane_def Let_def)
next
  case False
  then show ?thesis
    by (simp add: updateGPUdependent_def withPlane_def Let_def)
qed

lemma withPlane_withPlane: "withPlane l p (withPlane l' p' s) = withPlane l p s"
  by (simp add: withPlane_def)

lemma updateProjection_withPlane:
  "updateProjection now t s =
     withPlane (Some (center_lat t)) (computeClippingPlane t (globeRadiusPixels t))
       (updateAnimation now t s)"
  using updateAnimation_withPlane [of now t "Some (center_lat t)" "cachedClippingPlane s" s]
  by (simp add: updateProjection_def Let_def withPlane_def)

lemma renderFrame_animFrame:
  "renderFrame env now t s =
     withPlane (Some (center_lat t)) (computeClippingPlane t (globeRadiusPixels t))
       (animFrame env now t s)"
  by (simp add: renderFrame_def animFrame_def updateProjection_withPlane
        updateGPUdependent_withPlane)

lemma animFrame_withPlane:
  "animFrame env now t (withPlane l p s) = withPlane l p (animFrame env now t s)"
  by (simp add: animFrame_def updateAnimation_withPlane updateGPUdependent_withPlane)

lemma isRenderingDirty_withPlane:
  "isRenderingDirty now (withPlane l p s) = isRenderingDirty now s"
  by (simp add: isRenderingDirty_def withPlane_def)

lemma zoomTransitionInProgress_withPlane:
  "zoomTransitionInProgress now (withPlane l p s) = zoomTransitionInProgress now s"
  by (simp add: zoomTransitionInProgress_def withPlane_def)

lemma globeness_withPlane: "globeness (withPlane l p s) = globeness s"
  by (simp add: withPlane_def)

lemma startedAtZoom12_eq:
  "startedAtZoom12 =
     withPlane (Some (center_lat (equatorCamera 12)))
       (computeClippingPlane (equatorCamera 12) (globeRadiusPixels (equatorCamera 12)))
       startedAtZoom12Anim"
  unfolding startedAtZoom12_def startedAtZoom12Anim_def
  by (simp only: renderFrame_animFrame animFrame_withPlane withPlane_withPlane)

lemma isRenderingDirty_covers:
  assumes "errorMeasurement s = Some m"
      and "globeTransitionInProgress now s \<or> errorTransitionInProgress now s \<or> awaitingQuery m"
  shows "isRenderingDirty now s = Inr True"
  using assms
  by (auto simp: isRenderingDirty_def globeTransitionInProgress_def errorTransitionInProgress_def
        globeTransitionTimeSeconds_def zoomTransitionTimeSeconds_def errorTransitionTimeSeconds_def
        Let_def)

text \<open>
  C8 (\<^verbatim>\<open>isRenderingDirty\<close> is true whenever a globe or zoom transition, an
  error-correction transition or a read-back is in flight) fails for the zoom
  transition. A map starts at zoom 12 with the globe enabled and the first animation
  skipped, on a GPU whose measured error is zero. After its fifth frame the read-back
  is done; 16 ms later, at 5080 ms, \<^const>\<open>isRenderingDirty\<close> answers false, while the
  zoom transition that began at 5000 ms is still in progress: the globeness is 0.955,
  a frame rendered now would bring it to 0.931, and only a frame after 5500 ms to 0.
\<close>

theorem isRenderingDirty_misses_zoom_transition:
  "isRenderingDirty 5080 startedAtZoom12 = Inr False
   \<and> zoomTransitionInProgress 5080 startedAtZoom12
   \<and> globeness startedAtZoom12 = Some (955042304 / 1000000000)
   \<and> globeness (updateProjection 5080 (equatorCamera 12) startedAtZoom12) = Some (931392 / 1000000)
   \<and> globeness (updateProjection 5600 (equatorCamera 12) startedAtZoom12) = Some 0"
proof -
  have "isRenderingDirty 5080 startedAtZoom12Anim = Inr False"
    by code_simp
  moreover have "zoomTransitionInProgress 5080 startedAtZoom12Anim"
    by code_simp
  moreover have "globeness startedAtZoom12Anim = Some (955042304 / 1000000000)"
    by code_simp
  moreover have "globeness (updateAnimation 5080 (equatorCamera 12) startedAtZoom12Anim)
                   = Some (931392 / 1000000)"
    by code_simp
  moreover have "globeness (updateAnimation 5600 (equatorCamera 12) startedAtZoom12Anim) = Some 0"
    by code_simp
  ultimately show ?thesis
    by (simp only: startedAtZoom12_eq isRenderingDirty_withPlane
          zoomTransitionInProgress_withPlane globeness_withPlane updateProjection_withPlane
          updateAnimation_withPlane simp_thms)
qed

subsection \<open>The tile coverage\<close>

text \<open>
  The loop of both variants walks a quadtree: a node is dropped, becomes one entry, or is
  replaced by its four children. The nodes on the stack and the entries pushed so far are
  never related, and a weight of the stack goes down at every turn; so the loop returns,
  and no two entries are the same tile.
\<close>

subsection \<open>The quadtree\<close>





lemma keyZoom_child: "c \<in> set (childKeys k) \<Longrightarrow> keyZoom c = keyZoom k + 1"
  by (cases k) (auto simp: childKeys_def keyZoom_def)











lemma shl32_small:
  assumes "0 \<le> a" "0 \<le> b" "b \<le> 30" "a * 2 ^ nat b < 2 ^ 31"
  shows "shl32 a b = a * 2 ^ nat b"
proof -
  have b: "b mod 32 = b" using assms(2,3) by simp
  have "a * 1 \<le> a * 2 ^ nat b"
    using assms(1) by (intro mult_left_mono) simp_all
  then have a: "a < 2 ^ 31" using assms(4) by simp
  have s1: "signed_take_bit 31 a = a"
    using assms(1) a by (intro signed_take_bit_int_eq_self) simp_all
  have nn: "0 \<le> a * 2 ^ nat b" using assms(1) by simp
  have s2: "signed_take_bit 31 (a * 2 ^ nat b) = a * 2 ^ nat b"
    using nn assms(4) by (intro signed_take_bit_int_eq_self) simp_all
  show ?thesis
    by (simp only: shl32_def b s1 push_bit_eq_mult s2)
qed

lemma shl32_one:
  assumes "0 \<le> z" "z \<le> 30"
  shows "shl32 1 z = 2 ^ nat z"
proof -
  have "(2::int) ^ nat z \<le> 2 ^ 30"
    using assms by (intro power_increasing) simp_all
  then have "(1::int) * 2 ^ nat z < 2 ^ 31" by simp
  from shl32_small [OF _ assms this] show ?thesis by simp
qed


lemma distanceToTileSimple_le:
  assumes "0 \<le> p" "p \<le> 1" "0 \<le> t" "t + ts \<le> 1" "0 < ts"
  shows "distanceToTileSimple p t ts \<le> 1"
  using assms by (simp add: distanceToTileSimple_def Let_def)

lemma distanceToTileWrapX_le:
  assumes "0 \<le> py" "py \<le> 1" "0 \<le> ty" "ty + ts \<le> 1" "0 < ts"
  shows "distanceToTileWrapX px py tx ty ts \<le> 1"
  using distanceToTileSimple_le [OF assms] assms(5)
  by (auto simp: distanceToTileWrapX_def Let_def min_def max_def)

lemma distanceToTile_le:
  assumes "0 \<le> py" "py \<le> 1" "0 \<le> ty" "ty + ts \<le> 1" "0 < ts"
  shows "distanceToTile px py tx ty ts \<le> 1"
  using distanceToTileWrapX_le [OF assms, of px tx]
  by (simp add: distanceToTile_def Let_def min_le_iff_disj)





lemma globeSplit_always:
  assumes "globeNode mz it" "mz \<le> 30"
      and "0 \<le> snd (gv_centerCoord view)" "snd (gv_centerCoord view) \<le> 1"
  shows "globeSplit view it"
proof -
  from assms(1,2) have z: "0 \<le> gi_zoom it" "gi_zoom it \<le> 30"
    by (simp_all add: globeNode_def)
  have sc: "shl32 1 (max (gi_zoom it) 0) = 2 ^ nat (gi_zoom it)"
    using z shl32_one [of "gi_zoom it"] by (simp add: max_def)
  define ts :: real where "ts = 1 / 2 ^ nat (gi_zoom it)"
  define ty :: real where "ty = real_of_int (gi_y it) / 2 ^ nat (gi_zoom it)"
  have ts: "0 < ts" by (simp add: ts_def)
  have ty: "0 \<le> ty" using assms(1) by (simp add: ty_def globeNode_def)
  have "gi_y it + 1 \<le> 2 ^ nat (gi_zoom it)" using assms(1) by (simp add: globeNode_def)
  then have "real_of_int (gi_y it + 1) \<le> real_of_int (2 ^ nat (gi_zoom it))"
    by (rule of_int_le_iff [THEN iffD2])
  then have "real_of_int (gi_y it) + 1 \<le> 2 ^ nat (gi_zoom it)" by simp
  then have tyts: "ty + ts \<le> 1"
    by (simp add: ty_def ts_def add_divide_distrib [symmetric])
  have "distanceToTile (fst (gv_centerCoord view)) (snd (gv_centerCoord view))
          (real_of_int (gi_x it) / 2 ^ nat (gi_zoom it)) ty ts \<le> 1"
    using assms(3,4) ty tyts ts by (rule distanceToTile_le)
  then have "min (distanceToTile (fst (gv_centerCoord view)) (snd (gv_centerCoord view))
          (real_of_int (gi_x it) / 2 ^ nat (gi_zoom it)) ty ts)
         (distanceToTile (fst (gv_cameraCoord view)) (snd (gv_cameraCoord view))
          (real_of_int (gi_x it) / 2 ^ nat (gi_zoom it)) ty ts) * 2 \<le> 3"
    by (simp add: min_def)
  then show ?thesis
    by (simp add: globeSplit_def Let_def sc ty_def ts_def)
qed






























lemma coverLoop_Nil: "coverLoop visit [] result = Some result"
  by (subst coverLoop.simps) simp

lemma coverLoop_Cons:
  "coverLoop visit (it # rest) result
     = coverLoop visit (fst (visit it) @ rest) (result @ snd (visit it))"
  by (subst coverLoop.simps) (simp add: case_prod_beta)

lemma shl32_num [simp]:
  "shl32 0 0 = 0" "shl32 1 0 = 1" "shl32 0 1 = 0" "shl32 1 1 = 2"
  by (simp_all add: shl32_def)

lemma southEast_root:
  "globeVisit southEastView 1 1 \<lparr>gi_x = 0, gi_y = 0, gi_zoom = 0, gi_fullyVisible = False\<rparr>
     = ([\<lparr>gi_x = 1, gi_y = 1, gi_zoom = 1, gi_fullyVisible = False\<rparr>,
         \<lparr>gi_x = 0, gi_y = 1, gi_zoom = 1, gi_fullyVisible = False\<rparr>,
         \<lparr>gi_x = 1, gi_y = 0, gi_zoom = 1, gi_fullyVisible = False\<rparr>,
         \<lparr>gi_x = 0, gi_y = 0, gi_zoom = 1, gi_fullyVisible = False\<rparr>], [])"
proof -
  have "globeSplit southEastView \<lparr>gi_x = 0, gi_y = 0, gi_zoom = 0, gi_fullyVisible = False\<rparr>"
    by (rule globeSplit_always [where mz = 1])
       (simp_all add: globeNode_def southEastView_def)
  then show ?thesis
    by (simp add: globeVisit_def Let_def globeChild_def) (simp add: southEastView_def)
qed

lemma southEast_hidden:
  "globeVisit southEastView 1 1 \<lparr>gi_x = 0, gi_y = 0, gi_zoom = 1, gi_fullyVisible = False\<rparr> = ([], [])"
  by (simp add: globeVisit_def southEastView_def Let_def)

lemma southEast_leaf:
  assumes "(x, y) \<noteq> (0, 0)"
  shows "globeVisit southEastView 1 1 \<lparr>gi_x = x, gi_y = y, gi_zoom = 1, gi_fullyVisible = False\<rparr>
     = ([], [globeLeaf southEastView 1 1 \<lparr>gi_x = x, gi_y = y, gi_zoom = 1, gi_fullyVisible = False\<rparr>])"
  using assms by (auto simp add: globeVisit_def southEastView_def Let_def)

lemma southEast_leaf_tile:
  "tileID (globeLeaf southEastView 1 1 \<lparr>gi_x = 1, gi_y = 1, gi_zoom = 1, gi_fullyVisible = False\<rparr>)
     = newOverscaledTileID 1 0 1 1 1"
  "tileID (globeLeaf southEastView 1 1 \<lparr>gi_x = 0, gi_y = 1, gi_zoom = 1, gi_fullyVisible = False\<rparr>)
     = newOverscaledTileID 1 1 1 0 1"
  "tileID (globeLeaf southEastView 1 1 \<lparr>gi_x = 1, gi_y = 0, gi_zoom = 1, gi_fullyVisible = False\<rparr>)
     = newOverscaledTileID 1 0 1 1 0"
  by (simp_all add: globeLeaf_def southEastView_def Let_def globeWrap_def distanceToTileSimple_def)

lemma southEast_leaf_key:
  "distanceSq (globeLeaf southEastView 1 1 \<lparr>gi_x = 1, gi_y = 1, gi_zoom = 1, gi_fullyVisible = False\<rparr>) = 2"
  "distanceSq (globeLeaf southEastView 1 1 \<lparr>gi_x = 0, gi_y = 1, gi_zoom = 1, gi_fullyVisible = False\<rparr>) = 1"
  "distanceSq (globeLeaf southEastView 1 1 \<lparr>gi_x = 1, gi_y = 0, gi_zoom = 1, gi_fullyVisible = False\<rparr>) = 1"
  by (simp_all add: globeLeaf_def southEastView_def Let_def sqrLen_def pow2_def)

lemma southEast_loop:
  "coverLoop (globeVisit southEastView 1 1)
     [\<lparr>gi_x = 0, gi_y = 0, gi_zoom = 0, gi_fullyVisible = False\<rparr>] []
   = Some [globeLeaf southEastView 1 1 \<lparr>gi_x = 1, gi_y = 1, gi_zoom = 1, gi_fullyVisible = False\<rparr>,
           globeLeaf southEastView 1 1 \<lparr>gi_x = 0, gi_y = 1, gi_zoom = 1, gi_fullyVisible = False\<rparr>,
           globeLeaf southEastView 1 1 \<lparr>gi_x = 1, gi_y = 0, gi_zoom = 1, gi_fullyVisible = False\<rparr>]"
  by (simp add: coverLoop_Cons coverLoop_Nil southEast_root southEast_hidden
                southEast_leaf)

lemma southEast_tiles:
  "globeCoveringTiles southEastView plainOptions
     = Some [newOverscaledTileID 1 1 1 0 1, newOverscaledTileID 1 0 1 1 0,
             newOverscaledTileID 1 0 1 1 1]"
proof -
  have "globeCoveringTiles southEastView plainOptions
          = map_option sortedTileIDs
              (coverLoop (globeVisit southEastView 1 1)
                 [\<lparr>gi_x = 0, gi_y = 0, gi_zoom = 0, gi_fullyVisible = False\<rparr>] [])"
    by (simp add: globeCoveringTiles_def plainOptions_def Let_def southEastView_def)
  then show ?thesis
    unfolding southEast_loop
    by (simp add: sortedTileIDs_def southEast_leaf_tile southEast_leaf_key)
qed







text \<open>
  C3. For the globe of \<^const>\<open>southEastView\<close> (covering zoom 1, minimum zoom 0, maximum zoom
  22) the spherical search returns the tiles (0, 1), (1, 0) and (1, 1) of zoom 1 in this
  order. Their squared distances to the map centre are 1, 1 and 0: the tile under the
  centre comes last, so the list is not in non-decreasing order of that distance.
\<close>

theorem globeCoveringTiles_order_not_by_center_distance:
  "globeCoveringTiles southEastView plainOptions
     = Some [newOverscaledTileID 1 1 1 0 1, newOverscaledTileID 1 0 1 1 0,
             newOverscaledTileID 1 0 1 1 1]
   \<and> map (centerDistanceSq (gv_centerCoord southEastView) 1)
         [newOverscaledTileID 1 1 1 0 1, newOverscaledTileID 1 0 1 1 0,
          newOverscaledTileID 1 0 1 1 1] = [1, 1, 0]
   \<and> \<not> sorted [1, 1, 0 :: real]"
  by (simp add: southEast_tiles)
     (simp add: centerDistanceSq_def newOverscaledTileID_def southEastView_def pow2_def sqrLen_def)

subsection \<open>Label placement along a line\<close>

text \<open>
  Every function of the placement only adds to the cache: entries stay, and a projection
  that is added is the projection of a vertex in front of the camera.
\<close>

lemma cacheExtends_refl: "cacheExtends args c c"
  by (simp add: cacheExtends_def)

lemma cacheExtends_projections:
  "cacheExtends args c c' \<Longrightarrow> projections c i = Some p \<Longrightarrow> projections c' i = Some p"
  unfolding cacheExtends_def by blast

lemma cacheExtends_new:
  "cacheExtends args c c' \<Longrightarrow> projections c i = None \<Longrightarrow> projections c' i = Some p
     \<Longrightarrow> inFront args i p"
  unfolding cacheExtends_def by blast

lemma cacheExtends_offsets:
  "cacheExtends args c c' \<Longrightarrow> offsets c i = Some p \<Longrightarrow> offsets c' i = Some p"
  unfolding cacheExtends_def by blast

lemma cacheExtends_anchor:
  "cacheExtends args c c' \<Longrightarrow> cachedAnchorPoint c = Some p \<Longrightarrow> cachedAnchorPoint c' = Some p"
  unfolding cacheExtends_def by blast

lemma cacheExtendsI:
  assumes "\<And>i p. projections c i = Some p \<Longrightarrow> projections c' i = Some p"
      and "\<And>i p. projections c i = None \<Longrightarrow> projections c' i = Some p \<Longrightarrow> inFront args i p"
      and "\<And>i p. offsets c i = Some p \<Longrightarrow> offsets c' i = Some p"
      and "\<And>p. cachedAnchorPoint c = Some p \<Longrightarrow> cachedAnchorPoint c' = Some p"
  shows "cacheExtends args c c'"
  unfolding cacheExtends_def using assms by blast

lemma cacheExtends_trans:
  assumes ab: "cacheExtends args a b" and bc: "cacheExtends args b c"
  shows "cacheExtends args a c"
proof (rule cacheExtendsI)
  fix i p assume "projections a i = Some p"
  then show "projections c i = Some p"
    using ab bc by (blast intro: cacheExtends_projections)
next
  fix i p assume n: "projections a i = None" and s: "projections c i = Some p"
  show "inFront args i p"
  proof (cases "projections b i")
    case None
    then show ?thesis using bc s by (blast intro: cacheExtends_new)
  next
    case (Some q)
    have q: "inFront args i q" using ab n Some by (rule cacheExtends_new)
    have "projections c i = Some q" using bc Some by (rule cacheExtends_projections)
    with s q show ?thesis by simp
  qed
next
  fix i p assume "offsets a i = Some p"
  then show "offsets c i = Some p"
    using ab bc by (blast intro: cacheExtends_offsets)
next
  fix p assume "cachedAnchorPoint a = Some p"
  then show "cachedAnchorPoint c = Some p"
    using ab bc by (blast intro: cacheExtends_anchor)
qed

lemma cacheTrue_extends:
  assumes t: "cacheTrue args c" and e: "cacheExtends args c c'"
  shows "cacheTrue args c'"
  unfolding cacheTrue_def
proof (intro allI impI)
  fix i p assume s: "projections c' i = Some p"
  show "inFront args i p"
  proof (cases "projections c i")
    case None
    then show ?thesis using e s by (blast intro: cacheExtends_new)
  next
    case (Some q)
    with t have q: "inFront args i q" unfolding cacheTrue_def by blast
    have "projections c' i = Some q" using e Some by (rule cacheExtends_projections)
    with s q show ?thesis by simp
  qed
qed

lemma projectVertexToViewport_cases:
  assumes "projectVertexToViewport index args sv cache = Some (p, cache')"
  shows "(projections cache index = Some p \<and> cache' = cache)
         \<or> (projections cache index = None \<and> inFront args index p
              \<and> cache' = cache\<lparr>projections := (projections cache)(index \<mapsto> p)\<rparr>)
         \<or> (projections cache index = None \<and> cache' = cache
              \<and> (\<exists>v t. lineVertexArray args index = Some v
                     \<and> snd (projectTileCoordinatesToViewport args v) \<le> 0
                     \<and> (if distanceFromAnchor sv = 0 then Some (tileAnchorPoint args)
                         else lineVertexArray args (index - direction sv)) = Some t
                     \<and> syntheticVertex args sv t v = Some p))"
  using assms
  by (auto simp add: projectVertexToViewport_def inFront_def Let_def
           split: option.splits if_splits)

lemma projectVertexToViewport_extends:
  assumes "projectVertexToViewport index args sv cache = Some (p, cache')"
  shows "cacheExtends args cache cache'"
proof -
  have new: "cacheExtends args cache cache'"
    if 2: "projections cache index = None" "inFront args index p"
      "cache' = cache\<lparr>projections := (projections cache)(index \<mapsto> p)\<rparr>"
  proof (rule cacheExtendsI)
    fix i q assume "projections cache i = Some q"
    with 2(1) have "i \<noteq> index" by auto
    with \<open>projections cache i = Some q\<close> show "projections cache' i = Some q"
      by (simp add: 2(3))
  next
    fix i q assume n: "projections cache i = None" and s: "projections cache' i = Some q"
    from n s have "i = index \<and> q = p" by (simp add: 2(3) split: if_splits)
    with 2(2) show "inFront args i q" by simp
  next
    fix i q assume "offsets cache i = Some q"
    then show "offsets cache' i = Some q" by (simp add: 2(3))
  next
    fix q assume "cachedAnchorPoint cache = Some q"
    then show "cachedAnchorPoint cache' = Some q" by (simp add: 2(3))
  qed
  from projectVertexToViewport_cases [OF assms] show ?thesis
  proof (elim disjE conjE exE)
    assume "cache' = cache"
    then show ?thesis by (simp add: cacheExtends_refl)
  next
    assume "projections cache index = None" "inFront args index p"
      "cache' = cache\<lparr>projections := (projections cache)(index \<mapsto> p)\<rparr>"
    then show ?thesis by (rule new)
  next
    assume "cache' = cache"
    then show ?thesis by (simp add: cacheExtends_refl)
  qed
qed

lemma findOffsetIntersectionPoint_extends:
  assumes "findOffsetIntersectionPoint fli index n cur ls le opv loy args sv cache = Some (p, cache')"
  shows "cacheExtends args cache cache' \<and> offsets cache' index = Some p"
proof (cases "offsets cache index")
  case (Some q)
  with assms show ?thesis
    by (simp add: findOffsetIntersectionPoint_def cacheExtends_refl)
next
  case None
  show ?thesis
  proof (cases "index + direction sv < ls \<or> index + direction sv \<ge> le")
    case True
    with None assms have "cache' = cache\<lparr>offsets := (offsets cache)(index \<mapsto> p)\<rparr>"
      by (auto simp add: findOffsetIntersectionPoint_def Let_def)
    with None show ?thesis by (simp add: cacheExtends_def)
  next
    case False
    with None assms obtain nv c1 where
      pv: "projectVertexToViewport (index + direction sv) args sv cache = Some (nv, c1)"
      and c': "cache' = c1\<lparr>offsets := (offsets c1)(index \<mapsto> p)\<rparr>"
      by (auto simp add: findOffsetIntersectionPoint_def Let_def split: option.splits)
    from projectVertexToViewport_cases [OF pv] have o: "offsets c1 = offsets cache"
      by auto
    have e1: "cacheExtends args cache c1" by (rule projectVertexToViewport_extends [OF pv])
    have "cacheExtends args c1 cache'"
      using None o by (simp add: c' cacheExtends_def)
    with e1 have "cacheExtends args cache cache'" by (rule cacheExtends_trans)
    then show ?thesis by (simp add: c')
  qed
qed

lemma sectionNormal_extends:
  assumes "sectionNormal W sv index cur prev cache = Some (n, cache')"
  shows "cacheExtends (wp_args W) cache cache'"
  using assms projectVertexToViewport_extends
  by (auto simp add: sectionNormal_def Let_def cacheExtends_refl
           split: if_splits option.splits)

lemma walkBody_ContinueE:
  assumes "walkBody W st cache = Continue st' cache'"
  obtains (plain) cur where
      "wp_lineStartIndex W \<le> ws_currentIndex st + wp_direction W"
      "ws_currentIndex st + wp_direction W < wp_lineEndIndex W"
      "wp_lineOffsetY W = 0"
      "projectVertexToViewport (ws_currentIndex st + wp_direction W) (wp_args W)
         (syntheticVertexArgsOf W st) cache = Some (cur, cache')"
      "st' = plainSection st (ws_currentIndex st + wp_direction W) cur"
    | (offset) cur c1 n c2 x where
      "wp_lineStartIndex W \<le> ws_currentIndex st + wp_direction W"
      "ws_currentIndex st + wp_direction W < wp_lineEndIndex W"
      "wp_lineOffsetY W \<noteq> 0"
      "projectVertexToViewport (ws_currentIndex st + wp_direction W) (wp_args W)
         (syntheticVertexArgsOf W st) cache = Some (cur, c1)"
      "sectionNormal W (syntheticVertexArgsOf W st)
         (ws_currentIndex st + wp_direction W) cur (ws_currentVertex st) c1 = Some (n, c2)"
      "findOffsetIntersectionPoint (wp_findLineIntersection W)
         (ws_currentIndex st + wp_direction W) n cur (wp_lineStartIndex W)
         (wp_lineEndIndex W) (offsetPreviousOf st n) (wp_lineOffsetY W)
         (wp_args W) (syntheticVertexArgsOf W st) c2 = Some (x, cache')"
      "st' = offsetSection st (ws_currentIndex st + wp_direction W) cur (offsetPreviousOf st n) x"
proof -
  have r: "\<not> (ws_currentIndex st + wp_direction W < wp_lineStartIndex W
             \<or> ws_currentIndex st + wp_direction W \<ge> wp_lineEndIndex W)"
    using assms by (auto simp add: walkBody_def Let_def)
  then have r1: "wp_lineStartIndex W \<le> ws_currentIndex st + wp_direction W"
    and r2: "ws_currentIndex st + wp_direction W < wp_lineEndIndex W"
    by simp_all
  from assms r obtain cur c1 where
    pv: "projectVertexToViewport (ws_currentIndex st + wp_direction W) (wp_args W)
           (syntheticVertexArgsOf W st) cache = Some (cur, c1)"
    by (cases "projectVertexToViewport (ws_currentIndex st + wp_direction W) (wp_args W)
           (syntheticVertexArgsOf W st) cache") (auto simp add: walkBody_def Let_def)
  show ?thesis
  proof (cases "wp_lineOffsetY W = 0")
    case True
    with assms r pv have "cache' = c1"
      "st' = plainSection st (ws_currentIndex st + wp_direction W) cur"
      by (simp_all add: walkBody_def Let_def)
    with r1 r2 True pv show ?thesis by (intro plain [of cur]) simp_all
  next
    case False
    from assms r pv False obtain n c2 where
      sn: "sectionNormal W (syntheticVertexArgsOf W st)
             (ws_currentIndex st + wp_direction W) cur (ws_currentVertex st) c1 = Some (n, c2)"
      by (cases "sectionNormal W (syntheticVertexArgsOf W st)
             (ws_currentIndex st + wp_direction W) cur (ws_currentVertex st) c1")
         (auto simp add: walkBody_def Let_def)
    from assms r pv False sn obtain x where
      fo: "findOffsetIntersectionPoint (wp_findLineIntersection W)
             (ws_currentIndex st + wp_direction W) n cur (wp_lineStartIndex W)
             (wp_lineEndIndex W) (offsetPreviousOf st n) (wp_lineOffsetY W)
             (wp_args W) (syntheticVertexArgsOf W st) c2 = Some (x, cache')"
      and st': "st' = offsetSection st (ws_currentIndex st + wp_direction W) cur
                        (offsetPreviousOf st n) x"
      by (cases "findOffsetIntersectionPoint (wp_findLineIntersection W)
             (ws_currentIndex st + wp_direction W) n cur (wp_lineStartIndex W)
             (wp_lineEndIndex W) (offsetPreviousOf st n) (wp_lineOffsetY W)
             (wp_args W) (syntheticVertexArgsOf W st) c2")
         (auto simp add: walkBody_def Let_def)
    from r1 r2 False pv sn fo st' show ?thesis by (rule offset)
  qed
qed

lemma walkBody_extends:
  assumes "walkBody W st cache = Continue st' cache'"
  shows "cacheExtends (wp_args W) cache cache'"
  using assms
proof (cases rule: walkBody_ContinueE)
  case (plain cur)
  then show ?thesis by (blast intro: projectVertexToViewport_extends)
next
  case (offset cur c1 n c2 x)
  have e1: "cacheExtends (wp_args W) cache c1"
    by (rule projectVertexToViewport_extends [OF offset(4)])
  have e2: "cacheExtends (wp_args W) c1 c2" by (rule sectionNormal_extends [OF offset(5)])
  have e3: "cacheExtends (wp_args W) c2 cache'"
    using findOffsetIntersectionPoint_extends [OF offset(6)] by simp
  from e1 e2 e3 show ?thesis by (blast intro: cacheExtends_trans)
qed

lemma walk_extends:
  "walk W st cache = Some (r, cache') \<Longrightarrow> cacheExtends (wp_args W) cache cache'"
proof (induction W st cache rule: walk.induct)
  case (1 W st cache)
  show ?case
  proof (cases "ws_distanceFromAnchor st + ws_currentSegmentDistance st \<le> wp_absOffsetX W")
    case False
    with "1.prems" have "cache' = cache" by (subst (asm) walk.simps) simp
    then show ?thesis by (simp add: cacheExtends_refl)
  next
    case True
    show ?thesis
    proof (cases "walkBody W st cache")
      case ReturnNull
      with True "1.prems" have "cache' = cache" by (subst (asm) walk.simps) simp
      then show ?thesis by (simp add: cacheExtends_refl)
    next
      case NotANumber
      with True "1.prems" show ?thesis by (subst (asm) walk.simps) simp
    next
      case (Continue st1 c1)
      with True "1.prems" have d: "wp_direction W \<noteq> 0" and w: "walk W st1 c1 = Some (r, cache')"
        by (subst (asm) walk.simps, simp split: if_splits)+
      have "cacheExtends (wp_args W) c1 cache'"
        by (rule "1.IH" [OF True Continue d w])
      with walkBody_extends [OF Continue] show ?thesis by (rule cacheExtends_trans)
    qed
  qed
qed

lemma anchorPointOf_extends:
  assumes "anchorPointOf args cache = (a, c)"
  shows "cacheExtends args cache c" "cachedAnchorPoint c = Some a"
        "projections c = projections cache" "offsets c = offsets cache"
  using assms
  by (auto simp add: anchorPointOf_def Let_def cacheExtends_def split: option.splits)

lemma placeGlyphAlongLine_extends:
  assumes "placeGlyphAlongLine fli offsetX lineOffsetX lineOffsetY flip anchorSegment ls le args
             rotateToLine cache = Some (r, cache')"
  shows "cacheExtends args cache cache'"
proof -
  define W where "W = walkParams fli args offsetX lineOffsetX lineOffsetY flip ls le"
  obtain a c0 where a: "anchorPointOf args cache = (a, c0)" by (cases "anchorPointOf args cache")
  have args: "wp_args W = args" by (simp add: W_def walkParams_def)
  from assms a obtain r' where
    w: "walk W (walkStart (wp_direction W) ls anchorSegment a) c0 = Some (r', cache')"
    by (auto simp add: placeGlyphAlongLine_def Let_def W_def split: option.splits)
  have "cacheExtends args c0 cache'" using walk_extends [OF w] by (simp add: args)
  with anchorPointOf_extends(1) [OF a] show ?thesis by (rule cacheExtends_trans)
qed

lemma projectVertexToViewport_behind:
  assumes "projectVertexToViewport index args sv cache = Some (p, cache')"
      and "projections cache index = None" "behindCamera args index"
  shows "cache' = cache
         \<and> (\<exists>v t. lineVertexArray args index = Some v \<and> syntheticVertex args sv t v = Some p)"
  using projectVertexToViewport_cases [OF assms(1)] assms(2,3)
  by (auto simp add: behindCamera_def inFront_def split: option.splits)

lemma cacheTrue_empty: "cacheTrue args emptyCache"
  by (simp add: cacheTrue_def emptyCache_def)

lemma pointMag_horizontal: "pointMag (a, 0) = \<bar>a\<bar>"
  by (simp add: pointMag_def)

lemma straightLine_project:
  "projectTileCoordinatesToViewport straightLine (x, y) = ((x + 100, 100 - y), 25 - x)"
  by (simp add: projectTileCoordinatesToViewport_def straightLine_def toViewport_def Let_def
                algebra_simps)

lemma straightLine_vertex:
  "0 \<le> i \<Longrightarrow> i \<le> 3 \<Longrightarrow> lineVertexArray straightLine i = Some (10 * real_of_int i, 0)"
  by (simp add: straightLine_def)

lemma straightLine_first:
  "projectVertexToViewport 1 straightLine sv emptyCache
     = Some ((110, 100), emptyCache\<lparr>projections := [1 \<mapsto> (110, 100)]\<rparr>)"
  by (simp add: projectVertexToViewport_def straightLine_vertex straightLine_project Let_def
                emptyCache_def)

lemma straightLine_behind: "behindCamera straightLine 3"
  by (simp add: behindCamera_def straightLine_vertex straightLine_project)

lemma straightLine_substitute:
  "projectVertexToViewport 3 straightLine
      \<lparr>distanceFromAnchor = 15, previousVertex = (120, 100), direction = 1, absOffsetX = 30\<rparr>
      (emptyCache\<lparr>projections := [1 \<mapsto> (110, 100)]\<rparr>)
     = Some ((136, 100), emptyCache\<lparr>projections := [1 \<mapsto> (110, 100)]\<rparr>)"
proof -
  have u: "pointUnit (pointSub (20, 0) (30, 0)) = Some (- 1, 0)"
    by (simp add: pointUnit_def pointSub_def pointMag_horizontal)
  have s: "syntheticVertex straightLine
      \<lparr>distanceFromAnchor = 15, previousVertex = (120, 100), direction = 1, absOffsetX = 30\<rparr>
      (20, 0) (30, 0) = Some (136, 100)"
    unfolding syntheticVertex_def u
    by (simp add: Let_def pointAdd_def pointSub_def pointMult_def pointMag_horizontal
                  straightLine_def toViewport_def)
  show ?thesis
    by (simp add: projectVertexToViewport_def straightLine_vertex straightLine_project Let_def
                  emptyCache_def s)
qed


lemma walk_stop:
  "\<not> ws_distanceFromAnchor st + ws_currentSegmentDistance st \<le> wp_absOffsetX W
     \<Longrightarrow> walk W st cache = Some (Some st, cache)"
  by (subst walk.simps) simp

lemma walk_null:
  "ws_distanceFromAnchor st + ws_currentSegmentDistance st \<le> wp_absOffsetX W
     \<Longrightarrow> walkBody W st cache = ReturnNull \<Longrightarrow> walk W st cache = Some (None, cache)"
  by (subst walk.simps) simp

lemma walk_continue:
  "ws_distanceFromAnchor st + ws_currentSegmentDistance st \<le> wp_absOffsetX W
     \<Longrightarrow> walkBody W st cache = Continue st' cache' \<Longrightarrow> wp_direction W \<noteq> 0
     \<Longrightarrow> walk W st cache = walk W st' cache'"
  by (subst walk.simps) simp

lemma walk_fault:
  "ws_distanceFromAnchor st + ws_currentSegmentDistance st \<le> wp_absOffsetX W
     \<Longrightarrow> walkBody W st cache = NotANumber \<Longrightarrow> walk W st cache = None"
  by (subst walk.simps) simp

lemma straightLine_plain_step:
  assumes "wp_args W = straightLine" "wp_lineOffsetY W = 0"
      and "wp_lineStartIndex W \<le> ws_currentIndex st + wp_direction W"
      and "ws_currentIndex st + wp_direction W < wp_lineEndIndex W"
      and "0 \<le> ws_currentIndex st + wp_direction W" "ws_currentIndex st + wp_direction W \<le> 2"
      and "projections cache (ws_currentIndex st + wp_direction W) = None"
  shows "walkBody W st cache
           = Continue
               (plainSection st (ws_currentIndex st + wp_direction W)
                  (10 * real_of_int (ws_currentIndex st + wp_direction W) + 100, 100))
               (cache\<lparr>projections := (projections cache)
                  (ws_currentIndex st + wp_direction W
                     \<mapsto> (10 * real_of_int (ws_currentIndex st + wp_direction W) + 100, 100))\<rparr>)"
  using assms
  by (simp add: walkBody_def Let_def projectVertexToViewport_def straightLine_vertex
                straightLine_project)

lemma straightLine_cached_step:
  assumes "wp_lineOffsetY W = 0"
      and "wp_lineStartIndex W \<le> ws_currentIndex st + wp_direction W"
      and "ws_currentIndex st + wp_direction W < wp_lineEndIndex W"
      and "projections cache (ws_currentIndex st + wp_direction W) = Some p"
  shows "walkBody W st cache
           = Continue (plainSection st (ws_currentIndex st + wp_direction W) p) cache"
  using assms
  by (simp add: walkBody_def Let_def projectVertexToViewport_def)

lemma straightLine_anchor:
  "anchorPointOf straightLine emptyCache
     = ((105, 100), emptyCache\<lparr>cachedAnchorPoint := Some (105, 100)\<rparr>)"
proof -
  have t: "tileAnchorPoint straightLine = (5, 0)" by (simp add: straightLine_def)
  show ?thesis
    by (simp add: anchorPointOf_def emptyCache_def t straightLine_project Let_def)
qed

lemma walk12:
  "walk (walkParams noIntersection straightLine 12 0 0 False 0 4)
        (walkStart 1 0 0 (105, 100)) cacheA
     = Some (Some (plainSection (plainSection (walkStart 1 0 0 (105, 100)) 1 (110, 100)) 2 (120, 100)),
             cacheC)"
proof -
  define W where "W = walkParams noIntersection straightLine 12 0 0 False 0 4"
  have W: "wp_args W = straightLine" "wp_lineOffsetY W = 0" "wp_direction W = 1"
    "wp_absOffsetX W = 12" "wp_lineStartIndex W = 0" "wp_lineEndIndex W = 4"
    by (simp_all add: W_def walkParams_def walkDirection_def combinedOffset_def)
  define s0 where "s0 = walkStart 1 0 0 (105, 100)"
  define s1 where "s1 = plainSection s0 1 (110, 100)"
  define s2 where "s2 = plainSection s1 2 (120, 100)"
  have b1: "walkBody W s0 cacheA = Continue s1 cacheB"
    using straightLine_plain_step [of W s0 cacheA]
    by (simp add: W s0_def s1_def walkStart_def cacheA_def cacheB_def)
  have b2: "walkBody W s1 cacheB = Continue s2 cacheC"
    using straightLine_plain_step [of W s1 cacheB]
    by (simp add: W s1_def s2_def plainSection_def cacheB_def cacheC_def fun_upd_twist)
  have "walk W s0 cacheA = walk W s1 cacheB"
    by (rule walk_continue [OF _ b1]) (simp_all add: W s0_def walkStart_def)
  also have "\<dots> = walk W s2 cacheC"
    by (rule walk_continue [OF _ b2])
       (simp_all add: W s1_def s0_def walkStart_def plainSection_def pointSub_def
                      pointMag_horizontal)
  also have "\<dots> = Some (Some s2, cacheC)"
    by (rule walk_stop)
       (simp add: W s2_def s1_def s0_def walkStart_def plainSection_def pointSub_def
                  pointMag_horizontal)
  finally show ?thesis by (simp add: W_def s0_def s1_def s2_def)
qed

lemma walkBody_ReturnNull: "walkBody W st cache = ReturnNull \<longleftrightarrow> leavesRange W st"
  by (auto simp add: walkBody_def leavesRange_def Let_def split: option.splits)

lemma walk_null_iff:
  assumes d: "wp_direction W \<noteq> 0"
  shows "walk W st cache = Some (None, cache')
           \<longleftrightarrow> (\<exists>n st'. walkAfter W n (st, cache) = Some (st', cache')
                    \<and> accumulated st' \<le> wp_absOffsetX W \<and> leavesRange W st')"
proof
  show "walk W st cache = Some (None, cache')
          \<Longrightarrow> \<exists>n st'. walkAfter W n (st, cache) = Some (st', cache')
                    \<and> accumulated st' \<le> wp_absOffsetX W \<and> leavesRange W st'"
  proof (induction W st cache rule: walk.induct)
    case (1 W st cache)
    show ?case
    proof (cases "accumulated st \<le> wp_absOffsetX W")
      case False
      with "1.prems" show ?thesis by (subst (asm) walk.simps) (simp add: accumulated_def)
    next
      case True
      then have c: "ws_distanceFromAnchor st + ws_currentSegmentDistance st \<le> wp_absOffsetX W"
        by (simp add: accumulated_def)
      show ?thesis
      proof (cases "walkBody W st cache")
        case ReturnNull
        with c "1.prems" have "cache' = cache" by (simp add: walk_null)
        moreover have "leavesRange W st" using ReturnNull by (simp add: walkBody_ReturnNull)
        ultimately have "walkAfter W 0 (st, cache) = Some (st, cache')
                    \<and> accumulated st \<le> wp_absOffsetX W \<and> leavesRange W st"
          using True by simp
        then show ?thesis by blast
      next
        case NotANumber
        with c "1.prems" show ?thesis by (simp add: walk_fault)
      next
        case (Continue st1 c1)
        from c Continue "1.prems" have d: "wp_direction W \<noteq> 0"
          by (subst (asm) walk.simps) (simp split: if_splits)
        from c Continue d "1.prems" have w: "walk W st1 c1 = Some (None, cache')"
          by (simp add: walk_continue)
        from "1.IH" [OF c Continue d w] obtain n st' where
          n: "walkAfter W n (st1, c1) = Some (st', cache')"
            "accumulated st' \<le> wp_absOffsetX W" "leavesRange W st'"
          by blast
        have "walkAfter W (Suc n) (st, cache) = Some (st', cache')"
          using True Continue n(1) by simp
        with n(2,3) show ?thesis by blast
      qed
    qed
  qed
next
  assume "\<exists>n st'. walkAfter W n (st, cache) = Some (st', cache')
                    \<and> accumulated st' \<le> wp_absOffsetX W \<and> leavesRange W st'"
  then obtain n st' where n: "walkAfter W n (st, cache) = Some (st', cache')"
      "accumulated st' \<le> wp_absOffsetX W" "leavesRange W st'"
    by blast
  from n(1) show "walk W st cache = Some (None, cache')"
  proof (induction n arbitrary: st cache)
    case 0
    then have "st' = st" "cache' = cache" by simp_all
    moreover have "walkBody W st' cache' = ReturnNull"
      using n(3) by (simp add: walkBody_ReturnNull)
    ultimately show ?case
      using n(2) by (simp add: walk_null accumulated_def)
  next
    case (Suc n)
    from Suc.prems have c: "accumulated st \<le> wp_absOffsetX W"
      by (simp split: if_splits)
    with Suc.prems obtain st1 c1 where b: "walkBody W st cache = Continue st1 c1"
      and a: "walkAfter W n (st1, c1) = Some (st', cache')"
      by (cases "walkBody W st cache") simp_all
    have "walk W st cache = walk W st1 c1"
      using c b d by (simp add: walk_continue accumulated_def)
    with Suc.IH [OF a] show ?case by simp
  qed
qed

lemma walk_some_iff:
  assumes d: "wp_direction W \<noteq> 0"
  shows "walk W st cache = Some (Some st', cache')
           \<longleftrightarrow> (\<exists>n. walkAfter W n (st, cache) = Some (st', cache')
                    \<and> \<not> accumulated st' \<le> wp_absOffsetX W)"
proof
  show "walk W st cache = Some (Some st', cache')
          \<Longrightarrow> \<exists>n. walkAfter W n (st, cache) = Some (st', cache')
                    \<and> \<not> accumulated st' \<le> wp_absOffsetX W"
  proof (induction W st cache rule: walk.induct)
    case (1 W st cache)
    show ?case
    proof (cases "accumulated st \<le> wp_absOffsetX W")
      case False
      with "1.prems" have "st' = st" "cache' = cache"
        by (simp_all add: walk_stop accumulated_def)
      with False have "walkAfter W 0 (st, cache) = Some (st', cache')
                    \<and> \<not> accumulated st' \<le> wp_absOffsetX W"
        by simp
      then show ?thesis by blast
    next
      case True
      then have c: "ws_distanceFromAnchor st + ws_currentSegmentDistance st \<le> wp_absOffsetX W"
        by (simp add: accumulated_def)
      show ?thesis
      proof (cases "walkBody W st cache")
        case ReturnNull
        with c "1.prems" show ?thesis by (simp add: walk_null)
      next
        case NotANumber
        with c "1.prems" show ?thesis by (simp add: walk_fault)
      next
        case (Continue st1 c1)
        from c Continue "1.prems" have d: "wp_direction W \<noteq> 0"
          by (subst (asm) walk.simps) (simp split: if_splits)
        from c Continue d "1.prems" have w: "walk W st1 c1 = Some (Some st', cache')"
          by (simp add: walk_continue)
        from "1.IH" [OF c Continue d w] obtain n where
          n: "walkAfter W n (st1, c1) = Some (st', cache')"
            "\<not> accumulated st' \<le> wp_absOffsetX W"
          by blast
        have "walkAfter W (Suc n) (st, cache) = Some (st', cache')"
          using True Continue n(1) by simp
        with n(2) show ?thesis by blast
      qed
    qed
  qed
next
  assume "\<exists>n. walkAfter W n (st, cache) = Some (st', cache')
                    \<and> \<not> accumulated st' \<le> wp_absOffsetX W"
  then obtain n where n: "walkAfter W n (st, cache) = Some (st', cache')"
      "\<not> accumulated st' \<le> wp_absOffsetX W"
    by blast
  from n(1) show "walk W st cache = Some (Some st', cache')"
  proof (induction n arbitrary: st cache)
    case 0
    then have "st' = st" "cache' = cache" by simp_all
    with n(2) show ?case
      by (simp add: walk_stop accumulated_def)
  next
    case (Suc n)
    from Suc.prems have c: "accumulated st \<le> wp_absOffsetX W"
      by (simp split: if_splits)
    with Suc.prems obtain st1 c1 where b: "walkBody W st cache = Continue st1 c1"
      and a: "walkAfter W n (st1, c1) = Some (st', cache')"
      by (cases "walkBody W st cache") simp_all
    have "walk W st cache = walk W st1 c1"
      using c b d by (simp add: walk_continue accumulated_def)
    with Suc.IH [OF a] show ?case by simp
  qed
qed

lemma walkBody_accumulates:
  assumes "walkBody W st cache = Continue st' cache'"
  shows "ws_distanceFromAnchor st' = accumulated st"
        "ws_currentIndex st' = ws_currentIndex st + wp_direction W"
        "wp_lineStartIndex W \<le> ws_currentIndex st'" "ws_currentIndex st' < wp_lineEndIndex W"
  using assms
  by (cases rule: walkBody_ContinueE;
      simp add: plainSection_def offsetSection_def accumulated_def)+

lemma walkAfter_bracket:
  "walkAfter W (Suc n) s = Some (st', cache')
     \<Longrightarrow> wp_lineStartIndex W \<le> ws_currentIndex st' \<and> ws_currentIndex st' < wp_lineEndIndex W
         \<and> ws_distanceFromAnchor st' \<le> wp_absOffsetX W"
proof (induction n arbitrary: s)
  case 0
  from 0 have c: "accumulated (fst s) \<le> wp_absOffsetX W" by (simp split: if_splits)
  with 0 have b: "walkBody W (fst s) (snd s) = Continue st' cache'"
    by (cases "walkBody W (fst s) (snd s)") simp_all
  from walkBody_accumulates [OF b] c show ?case by simp
next
  case (Suc n)
  from Suc.prems have c: "accumulated (fst s) \<le> wp_absOffsetX W" by (simp split: if_splits)
  with Suc.prems obtain st1 c1 where b: "walkBody W (fst s) (snd s) = Continue st1 c1"
    and a: "walkAfter W (Suc n) (st1, c1) = Some (st', cache')"
    by (cases "walkBody W (fst s) (snd s)") simp_all
  from Suc.IH [OF a] show ?case .
qed

lemma pointMag_nonneg: "0 \<le> pointMag p"
  by (simp add: pointMag_def)

lemma pathLength_nonneg: "0 \<le> pathLength p qs"
  by (induction qs arbitrary: p) (simp_all add: pointMag_nonneg)

lemma walkIndices_leaves:
  assumes "d = 1 \<or> d = - 1" "i + d < ls \<or> le \<le> i + d"
  shows "walkIndices d ls le i = []"
  using assms by (auto simp add: walkIndices_def)

lemma walkIndices_next:
  assumes "d = 1 \<or> d = - 1" "ls \<le> i + d" "i + d < le"
  shows "walkIndices d ls le i = (i + d) # walkIndices d ls le (i + d)"
proof (cases "d = 1")
  case True
  have "[i + 1 .. le - 1] = (i + 1) # [i + 1 + 1 .. le - 1]"
    using assms(3) True by (subst upto_rec1) simp_all
  then show ?thesis using True assms(2,3) by (simp add: walkIndices_def add.commute)
next
  case False
  with assms(1) have d: "d = - 1" by simp
  have "[ls .. i - 1] = [ls .. i - 1 - 1] @ [i - 1]"
    using assms(2) d by (subst upto_rec2) simp_all
  then show ?thesis using d assms(2,3) by (simp add: walkIndices_def)
qed

lemma projectVertexToViewport_visible:
  assumes "cacheTrue args cache" "visible args index"
  shows "\<exists>c1. projectVertexToViewport index args sv cache = Some (projected args index, c1)
              \<and> cacheTrue args c1"
proof (cases "projections cache index")
  case (Some p)
  with assms(1) have "inFront args index p" unfolding cacheTrue_def by blast
  then have "p = projected args index"
    by (simp add: inFront_def projected_def split: option.splits)
  with Some assms(1) show ?thesis by (simp add: projectVertexToViewport_def)
next
  case None
  from assms(2) obtain v where v: "lineVertexArray args index = Some v"
    "0 < snd (projectTileCoordinatesToViewport args v)"
    by (auto simp add: visible_def split: option.splits)
  have p: "projectVertexToViewport index args sv cache
             = Some (projected args index,
                     cache\<lparr>projections := (projections cache)(index \<mapsto> projected args index)\<rparr>)"
    using None v by (simp add: projectVertexToViewport_def projected_def Let_def)
  from cacheTrue_extends [OF assms(1) projectVertexToViewport_extends [OF p]] p
  show ?thesis by blast
qed

lemma walk_plain:
  assumes lY: "wp_lineOffsetY W = 0" and dir: "wp_direction W = 1 \<or> wp_direction W = - 1"
  shows "cacheTrue (wp_args W) cache
     \<Longrightarrow> list_all (visible (wp_args W))
           (walkIndices (wp_direction W) (wp_lineStartIndex W) (wp_lineEndIndex W) (ws_currentIndex st))
     \<Longrightarrow> (if accumulated st + remainingLength W st \<le> wp_absOffsetX W
          then \<exists>c'. walk W st cache = Some (None, c')
          else \<exists>st' c'. walk W st cache = Some (Some st', c'))"
  using lY dir
proof (induction W st cache rule: walk.induct)
  case (1 W st cache)
  note lY = "1.prems"(3) and dir = "1.prems"(4)
  have d0: "wp_direction W \<noteq> 0" using dir by auto
  show ?case
  proof (cases "accumulated st \<le> wp_absOffsetX W")
    case False
    then have w: "walk W st cache = Some (Some st, cache)"
      by (simp add: walk_stop accumulated_def)
    have "0 \<le> remainingLength W st" by (simp add: remainingLength_def pathLength_nonneg)
    with False have "\<not> accumulated st + remainingLength W st \<le> wp_absOffsetX W" by simp
    with w show ?thesis by simp
  next
    case True
    then have c: "ws_distanceFromAnchor st + ws_currentSegmentDistance st \<le> wp_absOffsetX W"
      by (simp add: accumulated_def)
    show ?thesis
    proof (cases "leavesRange W st")
      case True
      then have e: "walkIndices (wp_direction W) (wp_lineStartIndex W) (wp_lineEndIndex W)
                      (ws_currentIndex st) = []"
        using dir by (intro walkIndices_leaves) (simp_all add: leavesRange_def)
      have "walk W st cache = Some (None, cache)"
        using c True by (simp add: walk_null walkBody_ReturnNull)
      with \<open>accumulated st \<le> wp_absOffsetX W\<close> e show ?thesis
        by (simp add: remainingLength_def)
    next
      case False
      define i where "i = ws_currentIndex st + wp_direction W"
      from False have r: "wp_lineStartIndex W \<le> i" "i < wp_lineEndIndex W"
        by (simp_all add: leavesRange_def i_def)
      have n: "walkIndices (wp_direction W) (wp_lineStartIndex W) (wp_lineEndIndex W)
                 (ws_currentIndex st)
               = i # walkIndices (wp_direction W) (wp_lineStartIndex W) (wp_lineEndIndex W) i"
        unfolding i_def using dir r by (intro walkIndices_next) (simp_all add: i_def)
      from "1.prems"(2) n have v: "visible (wp_args W) i"
        and rest: "list_all (visible (wp_args W))
                     (walkIndices (wp_direction W) (wp_lineStartIndex W) (wp_lineEndIndex W) i)"
        by simp_all
      from projectVertexToViewport_visible [OF "1.prems"(1) v]
      obtain c1 where p: "projectVertexToViewport i (wp_args W) (syntheticVertexArgsOf W st) cache
                            = Some (projected (wp_args W) i, c1)"
        and t1: "cacheTrue (wp_args W) c1"
        by blast
      define st1 where "st1 = plainSection st i (projected (wp_args W) i)"
      have b: "walkBody W st cache = Continue st1 c1"
        using r p lY by (simp add: walkBody_def Let_def i_def [symmetric] st1_def)
      have w: "walk W st cache = walk W st1 c1"
        using c b d0 by (rule walk_continue)
      have idx: "ws_currentIndex st1 = i" by (simp add: st1_def plainSection_def)
      have acc: "accumulated st1 + remainingLength W st1 = accumulated st + remainingLength W st"
        by (simp add: accumulated_def remainingLength_def st1_def plainSection_def n)
      have "if accumulated st1 + remainingLength W st1 \<le> wp_absOffsetX W
          then \<exists>c'. walk W st1 c1 = Some (None, c')
          else \<exists>st' c'. walk W st1 c1 = Some (Some st', c')"
        using "1.IH" [OF c b d0 t1 _ lY dir] rest by (simp add: idx)
      then show ?thesis unfolding w acc .
    qed
  qed
qed

lemma walkParams_fields:
  "wp_args (walkParams F args oX lX lY flip ls le) = args"
  "wp_lineOffsetY (walkParams F args oX lX lY flip ls le) = lY"
  "wp_lineStartIndex (walkParams F args oX lX lY flip ls le) = ls"
  "wp_lineEndIndex (walkParams F args oX lX lY flip ls le) = le"
  "wp_absOffsetX (walkParams F args oX lX lY flip ls le) = \<bar>combinedOffset oX lX flip\<bar>"
  "wp_direction (walkParams F args oX lX lY flip ls le)
     = walkDirection (combinedOffset oX lX flip) flip"
  "wp_findLineIntersection (walkParams F args oX lX lY flip ls le) = F"
  by (simp_all add: walkParams_def)

lemma walkDirection_cases: "walkDirection c flip = 1 \<or> walkDirection c flip = - 1"
  by (simp add: walkDirection_def Let_def)

lemma walkParams_direction:
  "wp_direction (walkParams F args oX lX lY flip ls le) = 1
   \<or> wp_direction (walkParams F args oX lX lY flip ls le) = - 1"
  by (simp add: walkParams_fields walkDirection_cases)

lemma placeGlyphAlongLine_walk:
  "placeGlyphAlongLine F oX lX lY flip seg ls le args rot cache
     = (case walk (walkParams F args oX lX lY flip ls le)
               (fst (walkBegin (walkParams F args oX lX lY flip ls le) seg cache))
               (snd (walkBegin (walkParams F args oX lX lY flip ls le) seg cache)) of
          None \<Rightarrow> None
        | Some (None, c) \<Rightarrow> Some (None, c)
        | Some (Some st, c) \<Rightarrow>
            map_option (\<lambda>g. (Some g, c))
              (glyphOnSegment (wp_absOffsetX (walkParams F args oX lX lY flip ls le))
                 (walkAngle (combinedOffset oX lX flip) flip) rot st))"
  by (simp add: placeGlyphAlongLine_def walkBegin_def Let_def walkParams_fields
           split: prod.splits)

lemma walkBody_segment:
  assumes "walkBody W st cache = Continue st' cache'"
  shows "\<exists>s. ws_currentLineSegment st' = Some s"
  using assms
  by (cases rule: walkBody_ContinueE; simp add: plainSection_def offsetSection_def)+

lemma walkAfter_segment:
  "walkAfter W (Suc n) s = Some (st', cache') \<Longrightarrow> \<exists>g. ws_currentLineSegment st' = Some g"
proof (induction n arbitrary: s)
  case 0
  from 0 have c: "accumulated (fst s) \<le> wp_absOffsetX W" by (simp split: if_splits)
  with 0 have b: "walkBody W (fst s) (snd s) = Continue st' cache'"
    by (cases "walkBody W (fst s) (snd s)") simp_all
  from walkBody_segment [OF b] show ?case .
next
  case (Suc n)
  from Suc.prems have c: "accumulated (fst s) \<le> wp_absOffsetX W" by (simp split: if_splits)
  with Suc.prems obtain st1 c1 where b: "walkBody W (fst s) (snd s) = Continue st1 c1"
    and a: "walkAfter W (Suc n) (st1, c1) = Some (st', cache')"
    by (cases "walkBody W (fst s) (snd s)") simp_all
  from Suc.IH [OF a] show ?case .
qed

lemma walkBegin_accumulated:
  "accumulated (fst (walkBegin W seg cache)) = 0"
  by (simp add: walkBegin_def walkStart_def accumulated_def)

text \<open>What a walk that stops on a segment has reached.\<close>

lemma walk_reached:
  assumes d: "wp_direction W \<noteq> 0" and T: "0 \<le> wp_absOffsetX W"
      and w: "walk W (fst (walkBegin W seg cache)) (snd (walkBegin W seg cache))
                = Some (Some st, cache')"
  shows "\<exists>n. walkAfter W (Suc n) (walkBegin W seg cache) = Some (st, cache')
              \<and> \<not> accumulated st \<le> wp_absOffsetX W"
proof -
  from w obtain m where m: "walkAfter W m (walkBegin W seg cache) = Some (st, cache')"
      "\<not> accumulated st \<le> wp_absOffsetX W"
    using walk_some_iff [OF d, of "fst (walkBegin W seg cache)" "snd (walkBegin W seg cache)"]
    by auto
  have "m \<noteq> 0"
  proof
    assume "m = 0"
    with m(1) have "st = fst (walkBegin W seg cache)" by (simp add: prod_eq_iff)
    with m(2) T show False by (simp add: walkBegin_accumulated)
  qed
  then obtain n where "m = Suc n" by (cases m) simp_all
  with m show ?thesis by blast
qed

lemma glyphOnSegment_defined:
  assumes "walkAfter W (Suc n) s = Some (st, cache')"
      and "\<not> accumulated st \<le> wp_absOffsetX W"
  shows "\<exists>g. glyphOnSegment (wp_absOffsetX W) a rot st = Some g"
proof -
  from walkAfter_segment [OF assms(1)] obtain sg where sg: "ws_currentLineSegment st = Some sg"
    by blast
  from walkAfter_bracket [OF assms(1)] have "ws_distanceFromAnchor st \<le> wp_absOffsetX W"
    by simp
  with assms(2) have "ws_currentSegmentDistance st \<noteq> 0"
    by (auto simp add: accumulated_def)
  with sg show ?thesis by (simp add: glyphOnSegment_def Let_def)
qed

lemma placeGlyphAlongLine_null:
  "placeGlyphAlongLine F oX lX lY flip seg ls le args rot cache = Some (None, cache')
     \<longleftrightarrow> walk (walkParams F args oX lX lY flip ls le)
               (fst (walkBegin (walkParams F args oX lX lY flip ls le) seg cache))
               (snd (walkBegin (walkParams F args oX lX lY flip ls le) seg cache))
           = Some (None, cache')"
  unfolding placeGlyphAlongLine_walk
  by (auto split: option.splits)

lemma placeGlyphAlongLine_placed:
  "(\<exists>g. placeGlyphAlongLine F oX lX lY flip seg ls le args rot cache = Some (Some g, cache'))
     \<longleftrightarrow> (\<exists>st. walk (walkParams F args oX lX lY flip ls le)
               (fst (walkBegin (walkParams F args oX lX lY flip ls le) seg cache))
               (snd (walkBegin (walkParams F args oX lX lY flip ls le) seg cache))
           = Some (Some st, cache'))"
proof -
  define W where "W = walkParams F args oX lX lY flip ls le"
  have d: "wp_direction W \<noteq> 0" using walkParams_direction [of F args oX lX lY flip ls le]
    by (auto simp add: W_def)
  have T: "wp_absOffsetX W = \<bar>combinedOffset oX lX flip\<bar>" by (simp add: W_def walkParams_fields)
  have T0: "0 \<le> wp_absOffsetX W" by (simp add: T)
  show ?thesis
    unfolding placeGlyphAlongLine_walk W_def [symmetric]
  proof
    assume "\<exists>g. (case walk W (fst (walkBegin W seg cache)) (snd (walkBegin W seg cache)) of
          None \<Rightarrow> None
        | Some (None, c) \<Rightarrow> Some (None, c)
        | Some (Some st, c) \<Rightarrow>
            map_option (\<lambda>g. (Some g, c))
              (glyphOnSegment (wp_absOffsetX W)
                 (walkAngle (combinedOffset oX lX flip) flip) rot st)) = Some (Some g, cache')"
    then show "\<exists>st. walk W (fst (walkBegin W seg cache)) (snd (walkBegin W seg cache))
                 = Some (Some st, cache')"
      by (auto split: option.splits)
  next
    assume "\<exists>st. walk W (fst (walkBegin W seg cache)) (snd (walkBegin W seg cache))
                 = Some (Some st, cache')"
    then obtain st where w: "walk W (fst (walkBegin W seg cache)) (snd (walkBegin W seg cache))
                 = Some (Some st, cache')"
      by blast
    from walk_reached [OF d T0 w] obtain n where
      n: "walkAfter W (Suc n) (walkBegin W seg cache) = Some (st, cache')"
         "\<not> accumulated st \<le> wp_absOffsetX W"
      by blast
    from glyphOnSegment_defined [OF n] obtain g where
      "glyphOnSegment (wp_absOffsetX W) (walkAngle (combinedOffset oX lX flip) flip) rot st = Some g"
      by blast
    with w show "\<exists>g. (case walk W (fst (walkBegin W seg cache)) (snd (walkBegin W seg cache)) of
          None \<Rightarrow> None
        | Some (None, c) \<Rightarrow> Some (None, c)
        | Some (Some st, c) \<Rightarrow>
            map_option (\<lambda>g. (Some g, c))
              (glyphOnSegment (wp_absOffsetX W)
                 (walkAngle (combinedOffset oX lX flip) flip) rot st)) = Some (Some g, cache')"
      by simp
  qed
qed

lemma anchorPointOf_cacheTrue:
  "cacheTrue args cache \<Longrightarrow> cacheTrue args (snd (anchorPointOf args cache))"
  by (simp add: anchorPointOf_def cacheTrue_def Let_def split: option.splits)

lemma straightLine_visible: "0 \<le> i \<Longrightarrow> i \<le> 2 \<Longrightarrow> visible straightLine i"
  by (simp add: visible_def straightLine_vertex straightLine_project)

lemma straightLine_projected:
  "0 \<le> i \<Longrightarrow> i \<le> 3 \<Longrightarrow> projected straightLine i = (10 * real_of_int i + 100, 100)"
  by (simp add: projected_def straightLine_vertex straightLine_project)

lemma straightLine_begin:
  "wp_args W = straightLine \<Longrightarrow> wp_lineStartIndex W = 0 \<Longrightarrow>
   walkBegin W 0 emptyCache = (walkStart (wp_direction W) 0 0 (105, 100), cacheA)"
  by (simp add: walkBegin_def straightLine_anchor) (simp add: cacheA_def emptyCache_def)

lemma backwards12:
  "wp_direction (walkParams noIntersection straightLine (- 12) 0 0 False 0 4) = - 1"
  "\<bar>combinedOffset (- 12) 0 False\<bar> = 12"
  "walkDirection (combinedOffset (- 12) 0 False) False = - 1"
  by (simp_all add: walkParams_fields walkDirection_def combinedOffset_def)

lemma forwards12:
  "wp_direction (walkParams noIntersection straightLine 12 0 0 False 0 4) = 1"
  "\<bar>combinedOffset 12 0 False\<bar> = 12"
  "walkDirection (combinedOffset 12 0 False) False = 1"
  by (simp_all add: walkParams_fields walkDirection_def combinedOffset_def)

lemma place12:
  "placeGlyphAlongLine noIntersection 12 0 0 False 0 0 4 straightLine False emptyCache
     = Some (Some \<lparr>pg_point = (117, 100), pg_angle = 0,
                    pg_path = [(105, 100), (110, 100), (117, 100)]\<rparr>, cacheC)"
proof -
  define W where "W = walkParams noIntersection straightLine 12 0 0 False 0 4"
  have b: "walkBegin W 0 emptyCache = (walkStart 1 0 0 (105, 100), cacheA)"
    using straightLine_begin [of W] by (simp add: W_def walkParams_fields forwards12)
  have g: "glyphOnSegment (wp_absOffsetX W) (walkAngle (combinedOffset 12 0 False) False) False
             (plainSection (plainSection (walkStart 1 0 0 (105, 100)) 1 (110, 100)) 2 (120, 100))
           = Some \<lparr>pg_point = (117, 100), pg_angle = 0,
                    pg_path = [(105, 100), (110, 100), (117, 100)]\<rparr>"
    by (simp add: glyphOnSegment_def plainSection_def walkStart_def Let_def W_def
                  walkParams_fields forwards12 pointSub_def pointMag_horizontal pointMult_def
                  pointAdd_def)
  show ?thesis
    unfolding placeGlyphAlongLine_walk W_def [symmetric] b
    using walk12 g by (simp add: W_def)
qed

text \<open>
  C9. Every projection the cache holds is the projection of its vertex, and that vertex
  lies in front of the camera: this is so of the cache a symbol starts with, and
  \<^const>\<open>projectVertexToViewport\<close> and \<^const>\<open>placeGlyphAlongLine\<close> keep it so. When the
  vertex is not cached and projects on or behind the plane of the camera,
  \<^const>\<open>projectVertexToViewport\<close> returns the substitute and leaves the cache as it was.
\<close>

theorem projectionCache_holds_front_projections:
  "(cacheTrue args cache
      \<and> projectVertexToViewport index args sv cache = Some (p, cache')
     \<longrightarrow> cacheTrue args cache'
         \<and> (projections cache index = None \<and> behindCamera args index
              \<longrightarrow> cache' = cache
                  \<and> (\<exists>v t. lineVertexArray args index = Some v
                         \<and> syntheticVertex args sv t v = Some p)))
   \<and> (cacheTrue args cache
        \<and> placeGlyphAlongLine fli offsetX lineOffsetX lineOffsetY flip anchorSegment ls le args
            rotateToLine cache = Some (r, cache'')
       \<longrightarrow> cacheTrue args cache'')
   \<and> cacheTrue args emptyCache"
proof (intro conjI impI)
  assume a: "cacheTrue args cache
      \<and> projectVertexToViewport index args sv cache = Some (p, cache')"
  then show "cacheTrue args cache'"
    using cacheTrue_extends [OF _ projectVertexToViewport_extends] by blast
  assume b: "projections cache index = None \<and> behindCamera args index"
  from a b projectVertexToViewport_behind [of index args sv cache p cache']
  show "cache' = cache" by blast
  from a b projectVertexToViewport_behind [of index args sv cache p cache']
  show "\<exists>v t. lineVertexArray args index = Some v \<and> syntheticVertex args sv t v = Some p"
    by blast
next
  assume "cacheTrue args cache
        \<and> placeGlyphAlongLine fli offsetX lineOffsetX lineOffsetY flip anchorSegment ls le args
            rotateToLine cache = Some (r, cache'')"
  then show "cacheTrue args cache''"
    using cacheTrue_extends [OF _ placeGlyphAlongLine_extends] by blast
next
  show "cacheTrue args emptyCache" by (rule cacheTrue_empty)
qed

theorem projectionCache_holds_front_projections_witness:
  "cacheTrue straightLine emptyCache
   \<and> projectVertexToViewport 1 straightLine
        \<lparr>distanceFromAnchor = 0, previousVertex = (105, 100), direction = 1, absOffsetX = 30\<rparr>
        emptyCache
      = Some ((110, 100), emptyCache\<lparr>projections := [1 \<mapsto> (110, 100)]\<rparr>)
   \<and> cacheTrue straightLine (emptyCache\<lparr>projections := [1 \<mapsto> (110, 100)]\<rparr>)
   \<and> behindCamera straightLine 3
   \<and> projectVertexToViewport 3 straightLine
        \<lparr>distanceFromAnchor = 15, previousVertex = (120, 100), direction = 1, absOffsetX = 30\<rparr>
        (emptyCache\<lparr>projections := [1 \<mapsto> (110, 100)]\<rparr>)
      = Some ((136, 100), emptyCache\<lparr>projections := [1 \<mapsto> (110, 100)]\<rparr>)
   \<and> placeGlyphAlongLine noIntersection 12 0 0 False 0 0 4 straightLine False emptyCache
      = Some (Some \<lparr>pg_point = (117, 100), pg_angle = 0,
                     pg_path = [(105, 100), (110, 100), (117, 100)]\<rparr>, cacheC)
   \<and> cacheTrue straightLine cacheC"
  using projectionCache_holds_front_projections [of straightLine emptyCache 1
              "\<lparr>distanceFromAnchor = 0, previousVertex = (105, 100), direction = 1, absOffsetX = 30\<rparr>"
              "(110, 100)" "emptyCache\<lparr>projections := [1 \<mapsto> (110, 100)]\<rparr>"
              noIntersection 12 0 0 False 0 0 4 False
              "Some \<lparr>pg_point = (117, 100), pg_angle = 0,
                     pg_path = [(105, 100), (110, 100), (117, 100)]\<rparr>" cacheC]
  by (simp add: straightLine_first straightLine_behind straightLine_substitute place12)

text \<open>
  The walk of a call, turn by turn. A call returns null exactly when its walk comes, after
  some number of turns, to a state where the accumulated distance has not passed the
  absolute combined offset and the next vertex is outside the line. It returns a glyph
  exactly when the walk comes, after at least one turn, to a vertex inside the line where
  the distance from the anchor is at most the offset and the accumulated distance is beyond
  it. Without a line offset, on a cache of true projections and with the vertices up to the
  end of the line in front of the camera, the call returns null when the remaining length
  of the line from the anchor is at most the offset, and a glyph otherwise.
\<close>

lemma placeGlyphAlongLine_walk_characterised:
  "let W = walkParams F args oX lX lY flip ls le;
       T = \<bar>combinedOffset oX lX flip\<bar>;
       start = walkBegin W seg cache
   in (placeGlyphAlongLine F oX lX lY flip seg ls le args rot cache = Some (None, cache')
         \<longleftrightarrow> (\<exists>n st. walkAfter W n start = Some (st, cache')
                \<and> accumulated st \<le> T \<and> leavesRange W st))
      \<and> ((\<exists>g. placeGlyphAlongLine F oX lX lY flip seg ls le args rot cache = Some (Some g, cache'))
         \<longleftrightarrow> (\<exists>n st. walkAfter W (Suc n) start = Some (st, cache')
                \<and> ls \<le> ws_currentIndex st \<and> ws_currentIndex st < le
                \<and> ws_distanceFromAnchor st \<le> T \<and> T < accumulated st))
      \<and> (lY = 0 \<and> cacheTrue args cache
          \<and> list_all (visible args) (walkIndices (wp_direction W) ls le (ws_currentIndex (fst start)))
         \<longrightarrow> (if remainingLength W (fst start) \<le> T
              then \<exists>c. placeGlyphAlongLine F oX lX lY flip seg ls le args rot cache = Some (None, c)
              else \<exists>g c. placeGlyphAlongLine F oX lX lY flip seg ls le args rot cache
                          = Some (Some g, c)))"
proof -
  define W where "W = walkParams F args oX lX lY flip ls le"
  define T where "T = \<bar>combinedOffset oX lX flip\<bar>"
  define start where "start = walkBegin W seg cache"
  have dir: "wp_direction W = 1 \<or> wp_direction W = - 1"
    unfolding W_def by (rule walkParams_direction)
  then have d: "wp_direction W \<noteq> 0" by auto
  have Wf: "wp_absOffsetX W = T" "wp_lineStartIndex W = ls" "wp_lineEndIndex W = le"
    "wp_args W = args" "wp_lineOffsetY W = lY"
    by (simp_all add: W_def T_def walkParams_fields)
  have T0: "0 \<le> wp_absOffsetX W" by (simp add: Wf T_def)
  have s: "(fst start, snd start) = start" by simp
  have one: "placeGlyphAlongLine F oX lX lY flip seg ls le args rot cache = Some (None, cache')
         \<longleftrightarrow> (\<exists>n st. walkAfter W n start = Some (st, cache')
                \<and> accumulated st \<le> T \<and> leavesRange W st)"
    unfolding placeGlyphAlongLine_null W_def [symmetric] start_def [symmetric]
    using walk_null_iff [OF d, of "fst start" "snd start" cache'] by (simp add: Wf)
  have two: "(\<exists>g. placeGlyphAlongLine F oX lX lY flip seg ls le args rot cache = Some (Some g, cache'))
         \<longleftrightarrow> (\<exists>n st. walkAfter W (Suc n) start = Some (st, cache')
                \<and> ls \<le> ws_currentIndex st \<and> ws_currentIndex st < le
                \<and> ws_distanceFromAnchor st \<le> T \<and> T < accumulated st)"
    unfolding placeGlyphAlongLine_placed W_def [symmetric] start_def [symmetric]
  proof
    assume "\<exists>st. walk W (fst start) (snd start) = Some (Some st, cache')"
    then obtain st where w: "walk W (fst start) (snd start) = Some (Some st, cache')" by blast
    from walk_reached [OF d T0, of seg cache st cache'] w obtain n where
      n: "walkAfter W (Suc n) start = Some (st, cache')" "\<not> accumulated st \<le> wp_absOffsetX W"
      by (auto simp add: start_def)
    from walkAfter_bracket [OF n(1)] n(2)
    have "ls \<le> ws_currentIndex st \<and> ws_currentIndex st < le
                \<and> ws_distanceFromAnchor st \<le> T \<and> T < accumulated st"
      by (simp add: Wf)
    with n(1) show "\<exists>n st. walkAfter W (Suc n) start = Some (st, cache')
                \<and> ls \<le> ws_currentIndex st \<and> ws_currentIndex st < le
                \<and> ws_distanceFromAnchor st \<le> T \<and> T < accumulated st"
      by blast
  next
    assume "\<exists>n st. walkAfter W (Suc n) start = Some (st, cache')
                \<and> ls \<le> ws_currentIndex st \<and> ws_currentIndex st < le
                \<and> ws_distanceFromAnchor st \<le> T \<and> T < accumulated st"
    then obtain n st where n: "walkAfter W (Suc n) (fst start, snd start) = Some (st, cache')"
        "\<not> accumulated st \<le> wp_absOffsetX W"
      by (auto simp add: Wf)
    then have "walk W (fst start) (snd start) = Some (Some st, cache')"
      using walk_some_iff [OF d, of "fst start" "snd start" st cache'] by blast
    then show "\<exists>st. walk W (fst start) (snd start) = Some (Some st, cache')" by blast
  qed
  have three: "if remainingLength W (fst start) \<le> T
              then \<exists>c. placeGlyphAlongLine F oX lX lY flip seg ls le args rot cache = Some (None, c)
              else \<exists>g c. placeGlyphAlongLine F oX lX lY flip seg ls le args rot cache
                          = Some (Some g, c)"
    if h: "lY = 0 \<and> cacheTrue args cache
          \<and> list_all (visible args) (walkIndices (wp_direction W) ls le (ws_currentIndex (fst start)))"
  proof -
    have ct: "cacheTrue (wp_args W) (snd start)"
      using h by (simp add: start_def walkBegin_def Wf anchorPointOf_cacheTrue)
    have la: "list_all (visible (wp_args W))
           (walkIndices (wp_direction W) (wp_lineStartIndex W) (wp_lineEndIndex W)
              (ws_currentIndex (fst start)))"
      using h by (simp add: Wf)
    have lY0: "wp_lineOffsetY W = 0" using h by (simp add: Wf)
    have acc: "accumulated (fst start) = 0" by (simp add: start_def walkBegin_accumulated)
    from walk_plain [OF lY0 dir ct la]
    have p: "if remainingLength W (fst start) \<le> T
          then \<exists>c'. walk W (fst start) (snd start) = Some (None, c')
          else \<exists>st' c'. walk W (fst start) (snd start) = Some (Some st', c')"
      by (simp add: acc Wf)
    show ?thesis
    proof (cases "remainingLength W (fst start) \<le> T")
      case True
      with p obtain c where "walk W (fst start) (snd start) = Some (None, c)" by auto
      then have "placeGlyphAlongLine F oX lX lY flip seg ls le args rot cache = Some (None, c)"
        unfolding placeGlyphAlongLine_null W_def [symmetric] start_def [symmetric] .
      with True show ?thesis by auto
    next
      case False
      with p obtain st c where "walk W (fst start) (snd start) = Some (Some st, c)" by auto
      then have "\<exists>st. walk W (fst start) (snd start) = Some (Some st, c)" by blast
      then have "\<exists>g. placeGlyphAlongLine F oX lX lY flip seg ls le args rot cache
                       = Some (Some g, c)"
        unfolding placeGlyphAlongLine_placed W_def [symmetric] start_def [symmetric] .
      with False show ?thesis by auto
    qed
  qed
  from one two three show ?thesis
    unfolding Let_def W_def [symmetric] T_def [symmetric] start_def [symmetric] by blast
qed

subsection \<open>A walk on a later cache\<close>

lemma pointSub_pointAdd: "pointSub (pointAdd a b) a = b"
  by (simp add: pointSub_def pointAdd_def)

lemma pointMag_zero_iff: "pointMag p = 0 \<longleftrightarrow> p = (0, 0)"
proof -
  have "fst p * fst p + snd p * snd p = 0 \<longleftrightarrow> fst p = 0 \<and> snd p = 0"
    by (simp add: sum_squares_eq_zero_iff [unfolded power2_eq_square])
  then show ?thesis by (simp add: pointMag_def prod_eq_iff)
qed

lemma pointMag_pointMult: "pointMag (pointMult s k) = \<bar>k\<bar> * pointMag s"
proof -
  have "fst s * k * (fst s * k) + snd s * k * (snd s * k)
          = k\<^sup>2 * (fst s * fst s + snd s * snd s)"
    by (simp add: power2_eq_square algebra_simps)
  then show ?thesis
    by (simp add: pointMag_def pointMult_def real_sqrt_mult)
qed

lemma pointUnit_pointMult:
  assumes "0 < k"
  shows "pointUnit (pointMult s k) = pointUnit s"
proof (cases "pointMag s = 0")
  case True
  then show ?thesis using assms by (simp add: pointUnit_def pointMag_pointMult)
next
  case False
  then show ?thesis using assms
    by (simp add: pointUnit_def pointMag_pointMult) (simp add: pointMult_def)
qed

lemma pointSub_zero: "pointMag (pointSub a b) = 0 \<Longrightarrow> a = b"
  by (simp add: pointMag_zero_iff pointSub_def prod_eq_iff)

text \<open>A substitute vertex: the previous vertex moved along a fixed segment.\<close>

lemma syntheticVertex_shape:
  assumes "syntheticVertex args sv t v = Some p"
  shows "\<exists>s. pointMag s \<noteq> 0
           \<and> (\<forall>sv'. previousVertex sv' = previousVertex sv \<longrightarrow>
                  syntheticVertex args sv' t v
                    = Some (pointAdd (previousVertex sv)
                         (pointMult s ((absOffsetX sv' - distanceFromAnchor sv' + 1) / pointMag s))))"
proof -
  from assms obtain u where u: "pointUnit (pointSub t v) = Some u"
    by (cases "pointUnit (pointSub t v)") (simp_all add: syntheticVertex_def Let_def)
  define s where "s = pointSub (previousVertex sv)
                        (toViewport args (fst (managerProject args (pointAdd t u))))"
  from assms u have m: "pointMag s \<noteq> 0"
    by (auto simp add: syntheticVertex_def Let_def s_def split: if_splits)
  have "syntheticVertex args sv' t v
          = Some (pointAdd (previousVertex sv)
               (pointMult s ((absOffsetX sv' - distanceFromAnchor sv' + 1) / pointMag s)))"
    if "previousVertex sv' = previousVertex sv" for sv'
    using u m that by (simp add: syntheticVertex_def Let_def s_def)
  with m show ?thesis by blast
qed

lemma inFront_not_behind: "inFront args i p \<Longrightarrow> \<not> behindCamera args i"
  by (auto simp add: inFront_def behindCamera_def split: option.splits)

lemma projectVertexToViewport_cached:
  "projections cache i = Some p \<Longrightarrow> projectVertexToViewport i args sv cache = Some (p, cache)"
  by (simp add: projectVertexToViewport_def)

lemma projectVertexToViewport_sim:
  assumes D: "projectVertexToViewport i args svD cD = Some (pD, cD1)"
      and ext: "cacheExtends args cD1 cM"
      and M: "projectVertexToViewport i args svM cM = Some (pM, cM1)"
      and sv: "distanceFromAnchor svM = distanceFromAnchor svD" "direction svM = direction svD"
  shows "pM = pD
         \<or> (\<exists>v t. syntheticVertex args svD t v = Some pD \<and> syntheticVertex args svM t v = Some pM)"
proof -
  have k: "projections cD1 i = Some pD
           \<or> (\<exists>v t. projections cD i = None \<and> cD1 = cD
                  \<and> lineVertexArray args i = Some v
                  \<and> snd (projectTileCoordinatesToViewport args v) \<le> 0
                  \<and> (if distanceFromAnchor svD = 0 then Some (tileAnchorPoint args)
                       else lineVertexArray args (i - direction svD)) = Some t
                  \<and> syntheticVertex args svD t v = Some pD)"
    using projectVertexToViewport_cases [OF D]
  proof (elim disjE conjE exE)
    assume "projections cD i = Some pD" "cD1 = cD"
    then show ?thesis by simp
  next
    assume "cD1 = cD\<lparr>projections := (projections cD)(i \<mapsto> pD)\<rparr>"
    then show ?thesis by simp
  next
    fix v t
    assume "projections cD i = None" "cD1 = cD" "lineVertexArray args i = Some v"
        "snd (projectTileCoordinatesToViewport args v) \<le> 0"
        "(if distanceFromAnchor svD = 0 then Some (tileAnchorPoint args)
          else lineVertexArray args (i - direction svD)) = Some t"
        "syntheticVertex args svD t v = Some pD"
    then show ?thesis by blast
  qed
  then consider (known) "projections cD1 i = Some pD"
    | (substitute) v t where "projections cD i = None" "cD1 = cD"
        "lineVertexArray args i = Some v"
        "snd (projectTileCoordinatesToViewport args v) \<le> 0"
        "(if distanceFromAnchor svD = 0 then Some (tileAnchorPoint args)
          else lineVertexArray args (i - direction svD)) = Some t"
        "syntheticVertex args svD t v = Some pD"
    by blast
  then show ?thesis
  proof cases
    case known
    with ext have "projections cM i = Some pD" by (blast intro: cacheExtends_projections)
    with M show ?thesis by (simp add: projectVertexToViewport_cached)
  next
    case substitute
    have b: "behindCamera args i" using substitute(3,4) by (simp add: behindCamera_def)
    have n: "projections cM i = None"
    proof (cases "projections cM i")
      case None
      then show ?thesis .
    next
      case (Some q)
      with ext substitute(1,2) have "inFront args i q" by (blast intro: cacheExtends_new)
      with b show ?thesis by (simp add: inFront_not_behind)
    qed
    from M n substitute(3,4,5) sv have "syntheticVertex args svM t v = Some pM"
      by (auto simp add: projectVertexToViewport_def Let_def split: if_splits option.splits)
    with substitute(6) show ?thesis by blast
  qed
qed

lemma projectVertexToViewport_sim_previous:
  assumes D: "projectVertexToViewport i args svD cD = Some (pD, cD1)"
      and ext: "cacheExtends args cD1 cM"
      and M: "projectVertexToViewport i args svM cM = Some (pM, cM1)"
      and sv: "distanceFromAnchor svM = distanceFromAnchor svD" "direction svM = direction svD"
              "previousVertex svM = previousVertex svD"
  shows "pM = pD
         \<or> (\<exists>s. pointMag s \<noteq> 0
               \<and> pD = pointAdd (previousVertex svD)
                        (pointMult s ((absOffsetX svD - distanceFromAnchor svD + 1) / pointMag s))
               \<and> pM = pointAdd (previousVertex svD)
                        (pointMult s ((absOffsetX svM - distanceFromAnchor svD + 1) / pointMag s)))"
proof -
  from projectVertexToViewport_sim [OF D ext M sv(1,2)]
  show ?thesis
  proof (elim disjE exE conjE)
    assume "pM = pD"
    then show ?thesis by simp
  next
    fix v t
    assume sD: "syntheticVertex args svD t v = Some pD"
       and sM: "syntheticVertex args svM t v = Some pM"
    from syntheticVertex_shape [OF sD] obtain s where s: "pointMag s \<noteq> 0"
      and all: "\<And>sv'. previousVertex sv' = previousVertex svD \<Longrightarrow>
                  syntheticVertex args sv' t v
                    = Some (pointAdd (previousVertex svD)
                         (pointMult s ((absOffsetX sv' - distanceFromAnchor sv' + 1) / pointMag s)))"
      by blast
    from all [of svD] sD
    have pD: "pD = pointAdd (previousVertex svD)
                        (pointMult s ((absOffsetX svD - distanceFromAnchor svD + 1) / pointMag s))"
      by simp
    from all [OF sv(3)] sM
    have pM: "pM = pointAdd (previousVertex svD)
                        (pointMult s ((absOffsetX svM - distanceFromAnchor svD + 1) / pointMag s))"
      by (simp add: sv(1))
    from s pD pM show ?thesis by blast
  qed
qed

lemma findOffsetIntersectionPoint_cached:
  "offsets cache i = Some x
     \<Longrightarrow> findOffsetIntersectionPoint F i n cur ls le opv lY args sv cache = Some (x, cache)"
  by (simp add: findOffsetIntersectionPoint_def)

lemma transformToOffsetNormal_scaled:
  "0 < k \<Longrightarrow> transformToOffsetNormal (pointMult s k) lY d = transformToOffsetNormal s lY d"
  by (simp add: transformToOffsetNormal_def pointUnit_pointMult)

lemma sectionNormal_direct:
  assumes "pointMag (pointSub cur prev) \<noteq> 0"
      and "sectionNormal W sv i cur prev cache = Some (n, cache')"
  shows "transformToOffsetNormal (pointSub cur prev) (wp_lineOffsetY W) (wp_direction W) = Some n"
  using assms by (auto simp add: sectionNormal_def Let_def)

lemma sectionNormal_ahead:
  assumes "pointMag (pointSub cur prev) = 0"
      and "sectionNormal W sv i cur prev cache = Some (n, cache')"
  shows "\<exists>nv. projectVertexToViewport (i + wp_direction W) (wp_args W) sv cache = Some (nv, cache')
              \<and> transformToOffsetNormal (pointSub nv cur) (wp_lineOffsetY W) (wp_direction W)
                  = Some n"
  using assms by (auto simp add: sectionNormal_def Let_def split: option.splits)

lemma sectionNormal_sim:
  assumes D: "sectionNormal W svD i curD prev cD1 = Some (nD, cD2)"
      and M: "sectionNormal W' svM i curM prev cM1 = Some (nM, cM2)"
      and W': "wp_args W' = wp_args W" "wp_lineOffsetY W' = wp_lineOffsetY W"
              "wp_direction W' = wp_direction W"
      and ext: "cacheExtends (wp_args W) cD2 cM1"
      and sv: "distanceFromAnchor svM = distanceFromAnchor svD" "direction svM = direction svD"
              "previousVertex svM = previousVertex svD" "previousVertex svD = prev"
      and pos: "0 < absOffsetX svD - distanceFromAnchor svD + 1"
               "0 < absOffsetX svM - distanceFromAnchor svD + 1"
      and cur: "curM = curD
         \<or> (\<exists>s. pointMag s \<noteq> 0
               \<and> curD = pointAdd prev
                        (pointMult s ((absOffsetX svD - distanceFromAnchor svD + 1) / pointMag s))
               \<and> curM = pointAdd prev
                        (pointMult s ((absOffsetX svM - distanceFromAnchor svD + 1) / pointMag s)))"
  shows "nM = nD"
  using cur
proof (elim disjE exE conjE)
  assume same: "curM = curD"
  show ?thesis
  proof (cases "pointMag (pointSub curD prev) = 0")
    case False
    from sectionNormal_direct [OF False D] sectionNormal_direct [OF _ M] False same W'
    show ?thesis by simp
  next
    case True
    then have cp: "curD = prev" by (rule pointSub_zero)
    from sectionNormal_ahead [OF True D] obtain nvD where
      pD: "projectVertexToViewport (i + wp_direction W) (wp_args W) svD cD1 = Some (nvD, cD2)"
      and tD: "transformToOffsetNormal (pointSub nvD curD) (wp_lineOffsetY W) (wp_direction W)
                 = Some nD"
      by blast
    from True same have "pointMag (pointSub curM prev) = 0" by simp
    from sectionNormal_ahead [OF this M] W' same obtain nvM where
      pM: "projectVertexToViewport (i + wp_direction W) (wp_args W) svM cM1 = Some (nvM, cM2)"
      and tM: "transformToOffsetNormal (pointSub nvM curD) (wp_lineOffsetY W) (wp_direction W)
                 = Some nM"
      by auto
    from projectVertexToViewport_sim_previous [OF pD ext pM sv(1,2,3)]
    show ?thesis
    proof (elim disjE exE conjE)
      assume "nvM = nvD"
      with tD tM show ?thesis by simp
    next
      fix s
      assume s: "pointMag s \<noteq> 0"
        and nD: "nvD = pointAdd (previousVertex svD)
                   (pointMult s ((absOffsetX svD - distanceFromAnchor svD + 1) / pointMag s))"
        and nM: "nvM = pointAdd (previousVertex svD)
                   (pointMult s ((absOffsetX svM - distanceFromAnchor svD + 1) / pointMag s))"
      have m: "0 < pointMag s" using s pointMag_nonneg [of s] by simp
      have kD: "0 < (absOffsetX svD - distanceFromAnchor svD + 1) / pointMag s"
        using pos(1) m by simp
      have kM: "0 < (absOffsetX svM - distanceFromAnchor svD + 1) / pointMag s"
        using pos(2) m by simp
      have "transformToOffsetNormal (pointSub nvD curD) (wp_lineOffsetY W) (wp_direction W)
              = transformToOffsetNormal s (wp_lineOffsetY W) (wp_direction W)"
        unfolding nD cp sv(4) pointSub_pointAdd by (rule transformToOffsetNormal_scaled [OF kD])
      moreover have "transformToOffsetNormal (pointSub nvM curD) (wp_lineOffsetY W) (wp_direction W)
              = transformToOffsetNormal s (wp_lineOffsetY W) (wp_direction W)"
        unfolding nM cp sv(4) pointSub_pointAdd by (rule transformToOffsetNormal_scaled [OF kM])
      ultimately show ?thesis using tD tM by (metis option.inject)
    qed
  qed
next
  fix s
  assume s: "pointMag s \<noteq> 0"
    and cD: "curD = pointAdd prev
               (pointMult s ((absOffsetX svD - distanceFromAnchor svD + 1) / pointMag s))"
    and cM: "curM = pointAdd prev
               (pointMult s ((absOffsetX svM - distanceFromAnchor svD + 1) / pointMag s))"
  have m: "0 < pointMag s" using s pointMag_nonneg [of s] by simp
  have kD: "0 < (absOffsetX svD - distanceFromAnchor svD + 1) / pointMag s"
    using pos(1) m by simp
  have kM: "0 < (absOffsetX svM - distanceFromAnchor svD + 1) / pointMag s"
    using pos(2) m by simp
  have dD: "pointSub curD prev
              = pointMult s ((absOffsetX svD - distanceFromAnchor svD + 1) / pointMag s)"
    unfolding cD by (rule pointSub_pointAdd)
  have dM: "pointSub curM prev
              = pointMult s ((absOffsetX svM - distanceFromAnchor svD + 1) / pointMag s)"
    unfolding cM by (rule pointSub_pointAdd)
  have nzD: "pointMag (pointSub curD prev) \<noteq> 0"
    unfolding dD pointMag_pointMult using pos(1) m by simp
  have nzM: "pointMag (pointSub curM prev) \<noteq> 0"
    unfolding dM pointMag_pointMult using pos(2) m by simp
  have "transformToOffsetNormal s (wp_lineOffsetY W) (wp_direction W) = Some nD"
    using sectionNormal_direct [OF nzD D] unfolding dD
    by (simp add: transformToOffsetNormal_scaled [OF kD])
  moreover have "transformToOffsetNormal s (wp_lineOffsetY W) (wp_direction W) = Some nM"
    using sectionNormal_direct [OF nzM M] unfolding dM W'
    by (simp add: transformToOffsetNormal_scaled [OF kM])
  ultimately show ?thesis by (metis option.inject)
qed

lemma walk_step_sim:
  assumes D: "walkBody W stD cD = Continue stD' cD'"
      and M: "walkBody (W\<lparr>wp_absOffsetX := T\<rparr>) stM cM = Continue stM' cM'"
      and ext: "cacheExtends (wp_args W) cD' cM"
      and ag: "agree W stD stM"
      and condD: "accumulated stD \<le> wp_absOffsetX W"
      and condM: "accumulated stM \<le> T"
  shows "agree W stD' stM'
         \<or> (\<not> accumulated stD' \<le> wp_absOffsetX W \<and> \<not> accumulated stM' \<le> T)"
proof -
  define W' where "W' = W\<lparr>wp_absOffsetX := T\<rparr>"
  define i where "i = ws_currentIndex stD + wp_direction W"
  define svD where "svD = syntheticVertexArgsOf W stD"
  define svM where "svM = syntheticVertexArgsOf W' stM"
  define acc where "acc = accumulated stD"
  have W': "wp_args W' = wp_args W" "wp_lineOffsetY W' = wp_lineOffsetY W"
    "wp_direction W' = wp_direction W" "wp_lineStartIndex W' = wp_lineStartIndex W"
    "wp_lineEndIndex W' = wp_lineEndIndex W" "wp_absOffsetX W' = T"
    "wp_findLineIntersection W' = wp_findLineIntersection W"
    by (simp_all add: W'_def)
  from ag have a: "ws_currentIndex stM = ws_currentIndex stD"
    "ws_distanceFromAnchor stM = ws_distanceFromAnchor stD"
    "ws_currentSegmentDistance stM = ws_currentSegmentDistance stD"
    "ws_offsetIntersectionPoint stM = ws_offsetIntersectionPoint stD"
    by (simp_all add: agree_def)
  have accM: "accumulated stM = acc" by (simp add: acc_def accumulated_def a)
  have iM: "ws_currentIndex stM + wp_direction W = i" by (simp add: i_def a)
  have sv: "distanceFromAnchor svD = acc" "distanceFromAnchor svM = acc"
    "direction svM = direction svD" "absOffsetX svD = wp_absOffsetX W" "absOffsetX svM = T"
    "previousVertex svD = ws_currentVertex stD" "previousVertex svM = ws_currentVertex stM"
    by (simp_all add: svD_def svM_def syntheticVertexArgsOf_def acc_def accumulated_def a W')
  have pos: "0 < absOffsetX svD - distanceFromAnchor svD + 1"
    "0 < absOffsetX svM - distanceFromAnchor svD + 1"
    using condD condM by (simp_all add: sv accM acc_def [symmetric])
  have M': "walkBody W' stM cM = Continue stM' cM'" using M by (simp add: W'_def)
  from D show ?thesis
  proof (cases rule: walkBody_ContinueE)
    case (plain curD)
    note pD = plain(4) [folded i_def svD_def] and sD = plain(5) [folded i_def]
    have lY: "wp_lineOffsetY W' = 0" using plain(3) by (simp add: W')
    from M' obtain curM where
      pM: "projectVertexToViewport i (wp_args W) svM cM = Some (curM, cM')"
      and sM: "stM' = plainSection stM i curM"
      by (cases rule: walkBody_ContinueE) (simp_all add: lY iM W' svM_def)
    from ag plain(3) have v: "ws_currentVertex stM = ws_currentVertex stD"
      by (simp add: agree_def)
    have svp: "previousVertex svM = previousVertex svD" by (simp add: sv v)
    from projectVertexToViewport_sim_previous [OF pD ext pM _ sv(3) svp]
    have "curM = curD
         \<or> (\<exists>s. pointMag s \<noteq> 0
               \<and> curD = pointAdd (ws_currentVertex stD)
                        (pointMult s ((wp_absOffsetX W - acc + 1) / pointMag s))
               \<and> curM = pointAdd (ws_currentVertex stD)
                        (pointMult s ((T - acc + 1) / pointMag s)))"
      by (simp add: sv)
    then show ?thesis
    proof (elim disjE exE conjE)
      assume "curM = curD"
      then have "agree W stD' stM'"
        by (simp add: agree_def sD sM plainSection_def a v)
      then show ?thesis by simp
    next
      fix s
      assume s: "pointMag s \<noteq> 0"
        and cD: "curD = pointAdd (ws_currentVertex stD)
                        (pointMult s ((wp_absOffsetX W - acc + 1) / pointMag s))"
        and cM: "curM = pointAdd (ws_currentVertex stD)
                        (pointMult s ((T - acc + 1) / pointMag s))"
      have m: "0 < pointMag s" using s pointMag_nonneg [of s] by simp
      have pD': "0 < wp_absOffsetX W - acc + 1" and pM': "0 < T - acc + 1"
        using pos by (simp_all add: sv)
      have dD: "pointMag (pointSub curD (ws_currentVertex stD)) = wp_absOffsetX W - acc + 1"
        unfolding cD pointSub_pointAdd pointMag_pointMult using m pD' by simp
      have dM: "pointMag (pointSub curM (ws_currentVertex stD)) = T - acc + 1"
        unfolding cM pointSub_pointAdd pointMag_pointMult using m pM' by simp
      have "accumulated stD' = wp_absOffsetX W + 1"
        by (simp add: accumulated_def sD plainSection_def dD acc_def)
      moreover have "accumulated stM' = T + 1"
        by (simp add: accumulated_def sM plainSection_def v dM a acc_def)
      ultimately show ?thesis by simp
    qed
  next
    case (offset curD c1 nD c2 xD)
    note pD = offset(4) [folded i_def svD_def] and nD = offset(5) [folded i_def svD_def]
     and fD = offset(6) [folded i_def svD_def] and sD = offset(7) [folded i_def]
    have lY: "wp_lineOffsetY W' \<noteq> 0" using offset(3) by (simp add: W')
    from M' obtain curM m1 nM m2 xM where
      pM: "projectVertexToViewport i (wp_args W) svM cM = Some (curM, m1)"
      and nM: "sectionNormal W' svM i curM (ws_currentVertex stM) m1 = Some (nM, m2)"
      and fM: "findOffsetIntersectionPoint (wp_findLineIntersection W) i nM curM
                 (wp_lineStartIndex W) (wp_lineEndIndex W) (offsetPreviousOf stM nM)
                 (wp_lineOffsetY W) (wp_args W) svM m2 = Some (xM, cM')"
      and sM: "stM' = offsetSection stM i curM (offsetPreviousOf stM nM) xM"
      using lY by (cases rule: walkBody_ContinueE) (simp_all add: iM W' svM_def)
    have e12: "cacheExtends (wp_args W) c1 c2" by (rule sectionNormal_extends [OF nD])
    have e2D: "cacheExtends (wp_args W) c2 cD'" and oD: "offsets cD' i = Some xD"
      using findOffsetIntersectionPoint_extends [OF fD] by simp_all
    have eM1: "cacheExtends (wp_args W) cM m1" by (rule projectVertexToViewport_extends [OF pM])
    have eM2: "cacheExtends (wp_args W) m1 m2"
      using sectionNormal_extends [OF nM] by (simp add: W')
    have e2M: "cacheExtends (wp_args W) c2 cM" using e2D ext by (rule cacheExtends_trans)
    have e1M: "cacheExtends (wp_args W) c1 cM" using e12 e2M by (rule cacheExtends_trans)
    have "offsets cM i = Some xD" using ext oD by (rule cacheExtends_offsets)
    then have "offsets m1 i = Some xD" using eM1 by (blast intro: cacheExtends_offsets)
    then have "offsets m2 i = Some xD" using eM2 by (blast intro: cacheExtends_offsets)
    with fM have x: "xM = xD" by (simp add: findOffsetIntersectionPoint_cached)
    have op: "offsetPreviousOf stM nM = offsetPreviousOf stD nD"
    proof (cases "ws_offsetIntersectionPoint stD")
      case (Some o)
      then show ?thesis by (simp add: offsetPreviousOf_def a)
    next
      case None
      with ag have v: "ws_currentVertex stM = ws_currentVertex stD"
        by (simp add: agree_def)
      have svp: "previousVertex svM = previousVertex svD" by (simp add: sv v)
      from projectVertexToViewport_sim_previous [OF pD e1M pM _ sv(3) svp]
      have cur: "curM = curD
         \<or> (\<exists>s. pointMag s \<noteq> 0
               \<and> curD = pointAdd (ws_currentVertex stD)
                        (pointMult s ((absOffsetX svD - distanceFromAnchor svD + 1) / pointMag s))
               \<and> curM = pointAdd (ws_currentVertex stD)
                        (pointMult s ((absOffsetX svM - distanceFromAnchor svD + 1) / pointMag s)))"
        by (simp add: sv)
      have e2m1: "cacheExtends (wp_args W) c2 m1" using e2M eM1 by (rule cacheExtends_trans)
      have nM': "sectionNormal W' svM i curM (ws_currentVertex stD) m1 = Some (nM, m2)"
        using nM by (simp add: v)
      have "nM = nD"
        by (rule sectionNormal_sim [OF nD nM' W'(1,2,3) e2m1 _ sv(3) svp sv(6) pos cur])
           (simp add: sv)
      then show ?thesis by (simp add: offsetPreviousOf_def a None v)
    qed
    have "agree W stD' stM'"
      using offset(3) by (simp add: agree_def sD sM offsetSection_def a x op)
    then show ?thesis by simp
  qed
qed

lemma walkBody_leaves_same:
  "leavesRange (W\<lparr>wp_absOffsetX := T\<rparr>) stM = leavesRange W stD"
  if "ws_currentIndex stM = ws_currentIndex stD"
  using that by (simp add: leavesRange_def)

lemma walk_sim:
  assumes T: "T \<le> wp_absOffsetX W"
  shows "walk W stD cD = Some (Some fin, cfin)
     \<Longrightarrow> cacheExtends (wp_args W) cfin cM
     \<Longrightarrow> agree W stD stM
          \<or> (\<not> accumulated stD \<le> wp_absOffsetX W \<and> \<not> accumulated stM \<le> T)
     \<Longrightarrow> walk (W\<lparr>wp_absOffsetX := T\<rparr>) stM cM = Some (r, cM')
     \<Longrightarrow> r \<noteq> None"
  using T
proof (induction W stD cD arbitrary: stM cM rule: walk.induct)
  case (1 W stD cD)
  note T = "1.prems"(5)
  define W' where "W' = W\<lparr>wp_absOffsetX := T\<rparr>"
  have W': "wp_absOffsetX W' = T" "wp_direction W' = wp_direction W" "wp_args W' = wp_args W"
    by (simp_all add: W'_def)
  note wM = "1.prems"(4) [folded W'_def]
  show ?case
  proof (cases "accumulated stM \<le> T")
    case False
    then have "walk W' stM cM = Some (Some stM, cM)"
      by (simp add: walk_stop accumulated_def W')
    with wM have "r = Some stM" by simp
    then show ?thesis by simp
  next
    case condM: True
    with "1.prems"(3) have ag: "agree W stD stM" by blast
    then have acc: "accumulated stM = accumulated stD"
      and idx: "ws_currentIndex stM = ws_currentIndex stD"
      by (simp_all add: agree_def accumulated_def)
    from condM acc T have condD: "accumulated stD \<le> wp_absOffsetX W" by simp
    then have cD': "ws_distanceFromAnchor stD + ws_currentSegmentDistance stD \<le> wp_absOffsetX W"
      by (simp add: accumulated_def)
    from condM have cM': "ws_distanceFromAnchor stM + ws_currentSegmentDistance stM
                            \<le> wp_absOffsetX W'"
      by (simp add: accumulated_def W')
    show ?thesis
    proof (cases "walkBody W stD cD")
      case ReturnNull
      with cD' "1.prems"(1) show ?thesis by (simp add: walk_null)
    next
      case NotANumber
      with cD' "1.prems"(1) show ?thesis by (simp add: walk_fault)
    next
      case (Continue stD1 cD1)
      from cD' Continue "1.prems"(1) have d: "wp_direction W \<noteq> 0"
        by (subst (asm) walk.simps) (simp split: if_splits)
      from cD' Continue d "1.prems"(1) have wD: "walk W stD1 cD1 = Some (Some fin, cfin)"
        by (simp add: walk_continue)
      have e1: "cacheExtends (wp_args W) cD1 cfin" by (rule walk_extends [OF wD])
      have e1M: "cacheExtends (wp_args W) cD1 cM"
        using e1 "1.prems"(2) by (rule cacheExtends_trans)
      have nl: "\<not> leavesRange W stD"
        using Continue walkBody_ReturnNull [of W stD cD] by simp
      show ?thesis
      proof (cases "walkBody W' stM cM")
        case ReturnNull
        then have "leavesRange W' stM" by (simp add: walkBody_ReturnNull)
        with nl idx show ?thesis by (simp add: W'_def leavesRange_def)
      next
        case NotANumber
        with cM' wM show ?thesis by (simp add: walk_fault)
      next
        case (Continue stM1 cM1)
        note bM = Continue
        have wM1: "walk W' stM1 cM1 = Some (r, cM')"
          using wM walk_continue [OF cM' bM] d by (simp add: W')
        have eM: "cacheExtends (wp_args W) cM cM1"
          using walkBody_extends [OF bM] by (simp add: W')
        have efin: "cacheExtends (wp_args W) cfin cM1"
          using "1.prems"(2) eM by (rule cacheExtends_trans)
        have rel: "agree W stD1 stM1
                   \<or> (\<not> accumulated stD1 \<le> wp_absOffsetX W \<and> \<not> accumulated stM1 \<le> T)"
          by (rule walk_step_sim [OF \<open>walkBody W stD cD = Continue stD1 cD1\<close>
                   bM [unfolded W'_def] e1M ag condD condM])
        show ?thesis
          by (rule "1.IH" [OF cD' \<open>walkBody W stD cD = Continue stD1 cD1\<close> d wD efin rel
                   wM1 [unfolded W'_def] T])
      qed
    qed
  qed
qed

lemma anchorPointOf_cached:
  "cachedAnchorPoint cache = Some a \<Longrightarrow> anchorPointOf args cache = (a, cache)"
  by (simp add: anchorPointOf_def)

lemma anchorPointOf_caches:
  "cachedAnchorPoint (snd (anchorPointOf args cache)) = Some (fst (anchorPointOf args cache))"
  by (simp add: anchorPointOf_def Let_def split: option.splits)

lemma placeGlyphAlongLine_sim:
  assumes D: "placeGlyphAlongLine F oD lX lY flip seg ls le args rot ce = Some (Some g, cfin)"
      and ext: "cacheExtends args cfin cM"
      and dir: "walkDirection (combinedOffset oM lX flip) flip
                  = walkDirection (combinedOffset oD lX flip) flip"
      and le: "\<bar>combinedOffset oM lX flip\<bar> \<le> \<bar>combinedOffset oD lX flip\<bar>"
      and M: "placeGlyphAlongLine F oM lX lY flip seg ls le args rot cM = Some (r, cM')"
  shows "r \<noteq> None"
proof -
  define W where "W = walkParams F args oD lX lY flip ls le"
  define T where "T = \<bar>combinedOffset oM lX flip\<bar>"
  have WM: "walkParams F args oM lX lY flip ls le = W\<lparr>wp_absOffsetX := T\<rparr>"
    by (simp add: W_def T_def walkParams_def dir)
  have Wf: "wp_args W = args" "wp_absOffsetX W = \<bar>combinedOffset oD lX flip\<bar>"
    "wp_lineStartIndex W = ls"
    by (simp_all add: W_def walkParams_fields)
  have TW: "T \<le> wp_absOffsetX W" using le by (simp add: T_def Wf)
  define a where "a = fst (anchorPointOf args ce)"
  define c0 where "c0 = snd (anchorPointOf args ce)"
  define st0 where "st0 = walkStart (wp_direction W) ls seg a"
  have bD: "walkBegin W seg ce = (st0, c0)"
    by (simp add: walkBegin_def Wf st0_def a_def c0_def)
  from D have "\<exists>g. placeGlyphAlongLine F oD lX lY flip seg ls le args rot ce = Some (Some g, cfin)"
    by blast
  then obtain fin where wD: "walk W st0 c0 = Some (Some fin, cfin)"
    unfolding placeGlyphAlongLine_placed W_def [symmetric] bD by auto
  have "cachedAnchorPoint c0 = Some a" unfolding c0_def a_def by (rule anchorPointOf_caches)
  moreover have "cacheExtends args c0 cfin" using walk_extends [OF wD] by (simp add: Wf)
  ultimately have "cachedAnchorPoint cfin = Some a" by (blast intro: cacheExtends_anchor)
  with ext have "cachedAnchorPoint cM = Some a" by (blast intro: cacheExtends_anchor)
  then have aM: "anchorPointOf args cM = (a, cM)" by (rule anchorPointOf_cached)
  have bM: "walkBegin (W\<lparr>wp_absOffsetX := T\<rparr>) seg cM = (st0, cM)"
    by (simp add: walkBegin_def Wf aM st0_def)
  have ag: "agree W st0 st0" by (simp add: agree_def)
  from M obtain r' where wM: "walk (W\<lparr>wp_absOffsetX := T\<rparr>) st0 cM = Some (r', cM')"
    and rr: "r = None \<longleftrightarrow> r' = None"
    unfolding placeGlyphAlongLine_walk WM bM
    by (auto split: option.splits)
  from ext have ext': "cacheExtends (wp_args W) cfin cM" by (simp add: Wf)
  have "r' \<noteq> None"
    by (rule walk_sim [OF TW wD ext' _ wM]) (simp add: ag)
  with rr show ?thesis by simp
qed

lemma between_dominated:
  assumes fs: "0 \<le> fs" and ab: "a \<le> b" and bc: "b \<le> c"
  shows "(walkDirection (combinedOffset (fs * b) lX flip) flip
            = walkDirection (combinedOffset (fs * c) lX flip) flip
          \<and> \<bar>combinedOffset (fs * b) lX flip\<bar> \<le> \<bar>combinedOffset (fs * c) lX flip\<bar>)
         \<or> (walkDirection (combinedOffset (fs * b) lX flip) flip
              = walkDirection (combinedOffset (fs * a) lX flip) flip
             \<and> \<bar>combinedOffset (fs * b) lX flip\<bar> \<le> \<bar>combinedOffset (fs * a) lX flip\<bar>)"
proof -
  have 1: "fs * a \<le> fs * b" using fs ab by (rule mult_left_mono [rotated])
  have 2: "fs * b \<le> fs * c" using fs bc by (rule mult_left_mono [rotated])
  have m1: "combinedOffset (fs * a) lX flip \<le> combinedOffset (fs * b) lX flip"
    using 1 by (simp add: combinedOffset_def)
  have m2: "combinedOffset (fs * b) lX flip \<le> combinedOffset (fs * c) lX flip"
    using 2 by (simp add: combinedOffset_def)
  show ?thesis
  proof (cases "0 < combinedOffset (fs * b) lX flip")
    case True
    with m2 show ?thesis by (simp add: walkDirection_def Let_def)
  next
    case False
    with m1 show ?thesis by (simp add: walkDirection_def Let_def)
  qed
qed

lemma placeInteriorGlyphs_placed:
  assumes fs: "0 \<le> fs"
      and PF: "placeGlyphAlongLine F (fs * a) lX lY flip (segment symbol) (lineStartIndex symbol)
                 (lineStartIndex symbol + lineLength symbol) args rot c0 = Some (Some gF, c1)"
      and PL: "placeGlyphAlongLine F (fs * c) lX lY flip (segment symbol) (lineStartIndex symbol)
                 (lineStartIndex symbol + lineLength symbol) args rot c1' = Some (Some gL, c2)"
  shows "list_all (\<lambda>g. case arr g of Some b \<Rightarrow> a \<le> b \<and> b \<le> c | None \<Rightarrow> False) gs
     \<Longrightarrow> cacheExtends args c1 cur \<Longrightarrow> cacheExtends args c2 cur
     \<Longrightarrow> placeInteriorGlyphs F fs arr lX lY flip symbol rot args gs cur = Some (placed, c3)
     \<Longrightarrow> list_all (\<lambda>p. p \<noteq> None) placed"
proof (induction gs arbitrary: cur placed)
  case Nil
  then show ?case by simp
next
  case (Cons g gs)
  from Cons.prems(1) obtain b where b: "arr g = Some b" "a \<le> b" "b \<le> c"
    and rest: "list_all (\<lambda>g. case arr g of Some b \<Rightarrow> a \<le> b \<and> b \<le> c | None \<Rightarrow> False) gs"
    by (cases "arr g") simp_all
  from Cons.prems(4) b(1) obtain r cn rs where
    M: "placeGlyphAlongLine F (fs * b) lX lY flip (segment symbol) (lineStartIndex symbol)
          (lineStartIndex symbol + lineLength symbol) args rot cur = Some (r, cn)"
    and R: "placeInteriorGlyphs F fs arr lX lY flip symbol rot args gs cn = Some (rs, c3)"
    and p: "placed = r # rs"
    by (auto split: option.splits)
  have "r \<noteq> None"
    using between_dominated [OF fs b(2,3), of lX flip]
  proof (elim disjE conjE)
    assume "walkDirection (combinedOffset (fs * b) lX flip) flip
            = walkDirection (combinedOffset (fs * c) lX flip) flip"
       "\<bar>combinedOffset (fs * b) lX flip\<bar> \<le> \<bar>combinedOffset (fs * c) lX flip\<bar>"
    then show ?thesis by (rule placeGlyphAlongLine_sim [OF PL Cons.prems(3) _ _ M])
  next
    assume "walkDirection (combinedOffset (fs * b) lX flip) flip
            = walkDirection (combinedOffset (fs * a) lX flip) flip"
       "\<bar>combinedOffset (fs * b) lX flip\<bar> \<le> \<bar>combinedOffset (fs * a) lX flip\<bar>"
    then show ?thesis by (rule placeGlyphAlongLine_sim [OF PF Cons.prems(2) _ _ M])
  qed
  moreover have e: "cacheExtends args cur cn" by (rule placeGlyphAlongLine_extends [OF M])
  have "list_all (\<lambda>p. p \<noteq> None) rs"
    using rest cacheExtends_trans [OF Cons.prems(2) e] cacheExtends_trans [OF Cons.prems(3) e] R
    by (rule Cons.IH)
  ultimately show ?case by (simp add: p)
qed

lemma those_Some_map: "those xs = Some ys \<Longrightarrow> xs = map Some ys"
proof (induction xs arbitrary: ys)
  case Nil
  then show ?case by simp
next
  case (Cons x xs)
  then show ?case by (cases x; cases "those xs") auto
qed

lemma sortedOffsets_nth:
  assumes so: "sortedOffsets arr symbol"
  shows "\<exists>os. sorted os \<and> length os = nat (numGlyphs symbol)
           \<and> (\<forall>i. glyphStartIndex symbol \<le> i
                    \<and> i \<le> glyphStartIndex symbol + numGlyphs symbol - 1
                  \<longrightarrow> arr i = Some (os ! nat (i - glyphStartIndex symbol)))"
proof -
  define s where "s = glyphStartIndex symbol"
  define e where "e = glyphStartIndex symbol + numGlyphs symbol - 1"
  from so obtain os where t: "those (map arr [s..e]) = Some os" and sorted: "sorted os"
    by (auto simp add: sortedOffsets_def glyphOffsets_def s_def e_def split: option.splits)
  from those_Some_map [OF t] have m: "map arr [s..e] = map Some os" .
  then have "length [s..e] = length os" by (metis length_map)
  then have lo: "length os = nat (e - s + 1)" by simp
  then have len: "length os = nat (numGlyphs symbol)" by (simp add: e_def s_def)
  have nth: "arr i = Some (os ! nat (i - s))" if "s \<le> i" "i \<le> e" for i
  proof -
    have k: "nat (i - s) < nat (e - s + 1)" using that by arith
    then have k1: "nat (i - s) < length [s..e]" by simp
    have k2: "nat (i - s) < length os" using k lo by simp
    have "[s..e] ! nat (i - s) = i" using that by (simp add: nth_upto)
    then have "map arr [s..e] ! nat (i - s) = arr i" using nth_map [OF k1, of arr] by simp
    moreover have "map Some os ! nat (i - s) = Some (os ! nat (i - s))"
      by (rule nth_map [OF k2])
    ultimately show ?thesis using m by simp
  qed
  show ?thesis
    using sorted len nth unfolding s_def e_def by blast
qed

lemma sortedOffsets_between:
  assumes so: "sortedOffsets arr symbol"
      and F: "arr (glyphStartIndex symbol) = Some a"
      and L: "arr (glyphStartIndex symbol + numGlyphs symbol - 1) = Some c"
  shows "list_all (\<lambda>g. case arr g of Some b \<Rightarrow> a \<le> b \<and> b \<le> c | None \<Rightarrow> False)
           (interiorGlyphIndices symbol)"
proof -
  from sortedOffsets_nth [OF so] obtain os where os: "sorted os" "length os = nat (numGlyphs symbol)"
    and nth: "\<And>i. glyphStartIndex symbol \<le> i \<Longrightarrow> i \<le> glyphStartIndex symbol + numGlyphs symbol - 1
        \<Longrightarrow> arr i = Some (os ! nat (i - glyphStartIndex symbol))"
    by blast
  have "case arr g of Some b \<Rightarrow> a \<le> b \<and> b \<le> c | None \<Rightarrow> False"
    if g: "g \<in> set (interiorGlyphIndices symbol)" for g
  proof -
    from g have r: "glyphStartIndex symbol + 1 \<le> g" "g \<le> glyphStartIndex symbol + numGlyphs symbol - 2"
      by (simp_all add: interiorGlyphIndices_def)
    then have n: "2 < numGlyphs symbol" by simp
    have gb: "arr g = Some (os ! nat (g - glyphStartIndex symbol))" using r by (intro nth) simp_all
    have ga: "a = os ! 0" using nth [of "glyphStartIndex symbol"] F n by simp
    have gc: "c = os ! nat (numGlyphs symbol - 1)"
      using nth [of "glyphStartIndex symbol + numGlyphs symbol - 1"] L n by simp
    have "os ! 0 \<le> os ! nat (g - glyphStartIndex symbol)"
      using os r n by (intro sorted_nth_mono) simp_all
    moreover have "os ! nat (g - glyphStartIndex symbol) \<le> os ! nat (numGlyphs symbol - 1)"
      using os r n by (intro sorted_nth_mono) simp_all
    ultimately show ?thesis by (simp add: gb ga gc)
  qed
  then show ?thesis by (simp add: list_all_iff)
qed

subsection \<open>Three glyphs on the straight line\<close>

lemma walkBegin_cached:
  "cachedAnchorPoint cache = Some a
     \<Longrightarrow> walkBegin W seg cache = (walkStart (wp_direction W) (wp_lineStartIndex W) seg a, cache)"
  by (simp add: walkBegin_def anchorPointOf_cached)

lemma placeFirst:
  "placeGlyphAlongLine noIntersection (- 3) 0 0 False 0 0 4 straightLine False emptyCache
     = Some (Some \<lparr>pg_point = (102, 100), pg_angle = 0, pg_path = [(105, 100), (102, 100)]\<rparr>,
             cacheD)"
proof -
  define W where "W = walkParams noIntersection straightLine (- 3) 0 0 False 0 4"
  have W: "wp_args W = straightLine" "wp_lineOffsetY W = 0" "wp_direction W = - 1"
    "wp_absOffsetX W = 3" "wp_lineStartIndex W = 0" "wp_lineEndIndex W = 4"
    by (simp_all add: W_def walkParams_def walkDirection_def combinedOffset_def)
  define s0 where "s0 = walkStart (- 1) 0 0 (105, 100)"
  define s1 where "s1 = plainSection s0 0 (100, 100)"
  have b: "walkBegin W 0 emptyCache = (s0, cacheA)"
    using straightLine_begin [of W] by (simp add: W s0_def)
  have b1: "walkBody W s0 cacheA = Continue s1 cacheD"
    using straightLine_plain_step [of W s0 cacheA]
    by (simp add: W s0_def s1_def walkStart_def cacheA_def cacheD_def)
  have "walk W s0 cacheA = walk W s1 cacheD"
    by (rule walk_continue [OF _ b1]) (simp_all add: W s0_def walkStart_def)
  also have "\<dots> = Some (Some s1, cacheD)"
    by (rule walk_stop)
       (simp add: W s1_def s0_def walkStart_def plainSection_def pointSub_def pointMag_horizontal)
  finally have w: "walk W s0 cacheA = Some (Some s1, cacheD)" .
  have g: "glyphOnSegment (wp_absOffsetX W) (walkAngle (combinedOffset (- 3) 0 False) False) False s1
           = Some \<lparr>pg_point = (102, 100), pg_angle = 0, pg_path = [(105, 100), (102, 100)]\<rparr>"
    by (simp add: glyphOnSegment_def s1_def s0_def plainSection_def walkStart_def Let_def W
                  pointSub_def pointMag_horizontal pointMult_def pointAdd_def)
  show ?thesis
    unfolding placeGlyphAlongLine_walk W_def [symmetric] b
    using w g by simp
qed

lemma placeLast:
  "placeGlyphAlongLine noIntersection 12 0 0 False 0 0 4 straightLine False cacheD
     = Some (Some \<lparr>pg_point = (117, 100), pg_angle = 0,
                    pg_path = [(105, 100), (110, 100), (117, 100)]\<rparr>, cacheE)"
proof -
  define W where "W = walkParams noIntersection straightLine 12 0 0 False 0 4"
  have W: "wp_args W = straightLine" "wp_lineOffsetY W = 0" "wp_direction W = 1"
    "wp_absOffsetX W = 12" "wp_lineStartIndex W = 0" "wp_lineEndIndex W = 4"
    by (simp_all add: W_def walkParams_def walkDirection_def combinedOffset_def)
  define s0 where "s0 = walkStart 1 0 0 (105, 100)"
  define s1 where "s1 = plainSection s0 1 (110, 100)"
  define s2 where "s2 = plainSection s1 2 (120, 100)"
  define c1 where "c1 = cacheD\<lparr>projections := (projections cacheD)(1 \<mapsto> (110, 100))\<rparr>"
  have b: "walkBegin W 0 cacheD = (s0, cacheD)"
    using walkBegin_cached [of cacheD "(105, 100)" W 0] by (simp add: W s0_def cacheD_def)
  have b1: "walkBody W s0 cacheD = Continue s1 c1"
    using straightLine_plain_step [of W s0 cacheD]
    by (simp add: W s0_def s1_def walkStart_def cacheD_def c1_def)
  have b2: "walkBody W s1 c1 = Continue s2 cacheE"
    using straightLine_plain_step [of W s1 c1]
    by (simp add: W s1_def s2_def plainSection_def cacheD_def cacheE_def c1_def)
  have "walk W s0 cacheD = walk W s1 c1"
    by (rule walk_continue [OF _ b1]) (simp_all add: W s0_def walkStart_def)
  also have "\<dots> = walk W s2 cacheE"
    by (rule walk_continue [OF _ b2])
       (simp_all add: W s1_def s0_def walkStart_def plainSection_def pointSub_def
                      pointMag_horizontal)
  also have "\<dots> = Some (Some s2, cacheE)"
    by (rule walk_stop)
       (simp add: W s2_def s1_def s0_def walkStart_def plainSection_def pointSub_def
                  pointMag_horizontal)
  finally have w: "walk W s0 cacheD = Some (Some s2, cacheE)" .
  have g: "glyphOnSegment (wp_absOffsetX W) (walkAngle (combinedOffset 12 0 False) False) False s2
           = Some \<lparr>pg_point = (117, 100), pg_angle = 0,
                    pg_path = [(105, 100), (110, 100), (117, 100)]\<rparr>"
    by (simp add: glyphOnSegment_def s2_def s1_def s0_def plainSection_def walkStart_def Let_def W
                  pointSub_def pointMag_horizontal pointMult_def pointAdd_def)
  show ?thesis
    unfolding placeGlyphAlongLine_walk W_def [symmetric] b
    using w g by simp
qed

lemma placeMiddle:
  "placeGlyphAlongLine noIntersection 4 0 0 False 0 0 4 straightLine False cacheE
     = Some (Some \<lparr>pg_point = (109, 100), pg_angle = 0, pg_path = [(105, 100), (109, 100)]\<rparr>,
             cacheE)"
proof -
  define W where "W = walkParams noIntersection straightLine 4 0 0 False 0 4"
  have W: "wp_args W = straightLine" "wp_lineOffsetY W = 0" "wp_direction W = 1"
    "wp_absOffsetX W = 4" "wp_lineStartIndex W = 0" "wp_lineEndIndex W = 4"
    by (simp_all add: W_def walkParams_def walkDirection_def combinedOffset_def)
  define s0 where "s0 = walkStart 1 0 0 (105, 100)"
  define s1 where "s1 = plainSection s0 1 (110, 100)"
  have b: "walkBegin W 0 cacheE = (s0, cacheE)"
    using walkBegin_cached [of cacheE "(105, 100)" W 0] by (simp add: W s0_def cacheE_def)
  have b1: "walkBody W s0 cacheE = Continue s1 cacheE"
    using straightLine_cached_step [of W s0 cacheE "(110, 100)"]
    by (simp add: W s0_def s1_def walkStart_def cacheE_def)
  have "walk W s0 cacheE = walk W s1 cacheE"
    by (rule walk_continue [OF _ b1]) (simp_all add: W s0_def walkStart_def)
  also have "\<dots> = Some (Some s1, cacheE)"
    by (rule walk_stop)
       (simp add: W s1_def s0_def walkStart_def plainSection_def pointSub_def pointMag_horizontal)
  finally have w: "walk W s0 cacheE = Some (Some s1, cacheE)" .
  have g: "glyphOnSegment (wp_absOffsetX W) (walkAngle (combinedOffset 4 0 False) False) False s1
           = Some \<lparr>pg_point = (109, 100), pg_angle = 0, pg_path = [(105, 100), (109, 100)]\<rparr>"
    by (simp add: glyphOnSegment_def s1_def s0_def plainSection_def walkStart_def Let_def W
                  pointSub_def pointMag_horizontal pointMult_def pointAdd_def)
  show ?thesis
    unfolding placeGlyphAlongLine_walk W_def [symmetric] b
    using w g by simp
qed

lemma upto_0_2: "[0 .. 2 :: int] = [0, 1, 2]"
  by (simp add: upto.simps)

lemma threeGlyphs_sorted: "sortedOffsets threeOffsets threeGlyphs"
  by (simp add: sortedOffsets_def glyphOffsets_def threeOffsets_def threeGlyphs_def upto_0_2)

lemma threeGlyphs_firstAndLast:
  "placeFirstAndLastGlyph noIntersection 1 threeOffsets 0 0 False threeGlyphs False straightLine
       emptyCache
     = Some (Some (\<lparr>pg_point = (102, 100), pg_angle = 0, pg_path = [(105, 100), (102, 100)]\<rparr>,
                   \<lparr>pg_point = (117, 100), pg_angle = 0,
                    pg_path = [(105, 100), (110, 100), (117, 100)]\<rparr>), cacheE)"
  by (simp add: placeFirstAndLastGlyph_def Let_def threeOffsets_def threeGlyphs_def placeFirst
                placeLast)

lemma threeGlyphs_interior:
  "placeInteriorGlyphs noIntersection 1 threeOffsets 0 0 False threeGlyphs False straightLine
       (interiorGlyphIndices threeGlyphs) cacheE
     = Some ([Some \<lparr>pg_point = (109, 100), pg_angle = 0, pg_path = [(105, 100), (109, 100)]\<rparr>],
             cacheE)"
  by (simp add: interiorGlyphIndices_def threeOffsets_def threeGlyphs_def placeMiddle)

subsection \<open>The path a glyph is placed on\<close>

lemma pathLength_snoc:
  "pathLength p (qs @ [q]) = pathLength p qs + pointMag (pointSub q (last (p # qs)))"
  by (induction qs arbitrary: p) simp_all

lemma pointAdd_pointSub: "pointAdd a (pointSub b a) = b"
  by (simp add: pointAdd_def pointSub_def)

lemma pathLength_append_last:
  assumes "path \<noteq> []"
  shows "pathLength (hd path) (tl path @ [q])
           = pathLength (hd path) (tl path) + pointMag (pointSub q (last path))"
proof -
  from assms obtain p ps where p: "path = p # ps" by (cases path) simp_all
  show ?thesis by (simp add: p pathLength_snoc)
qed

lemma walkBody_onPath:
  assumes g: "atStart st \<or> onPath W st"
      and b: "walkBody W st cache = Continue st' cache'"
  shows "onPath W st'"
  using b
proof (cases rule: walkBody_ContinueE)
  case (plain cur)
  note lY = plain(3) and st' = plain(5)
  from g show ?thesis
  proof
    assume "atStart st"
    then show ?thesis
      by (simp add: atStart_def onPath_def st' plainSection_def lY pointAdd_pointSub)
  next
    assume o: "onPath W st"
    then obtain seg where seg: "ws_currentLineSegment st = Some seg"
      by (cases "ws_currentLineSegment st") (simp_all add: onPath_def)
    from o seg lY have f: "ws_pathVertices st \<noteq> []"
      "ws_currentSegmentDistance st = pointMag seg"
      "pathLength (hd (ws_pathVertices st)) (tl (ws_pathVertices st)) = ws_distanceFromAnchor st"
      "ws_offsetIntersectionPoint st = None"
      "ws_currentVertex st = pointAdd (last (ws_pathVertices st)) seg"
      by (simp_all add: onPath_def)
    have d: "pointSub (ws_currentVertex st) (last (ws_pathVertices st)) = seg"
      by (simp add: f(5) pointSub_pointAdd)
    show ?thesis
      by (simp add: onPath_def st' plainSection_def lY pointAdd_pointSub f(1,4)
                    pathLength_append_last [OF f(1)] d f(2,3))
  qed
next
  case (offset cur c1 n c2 x)
  note lY = offset(3) and st' = offset(7)
  define OP where "OP = offsetPreviousOf st n"
  from g show ?thesis
  proof
    assume "atStart st"
    then show ?thesis
      by (simp add: atStart_def onPath_def st' offsetSection_def lY pointAdd_pointSub)
  next
    assume o: "onPath W st"
    then obtain seg where seg: "ws_currentLineSegment st = Some seg"
      by (cases "ws_currentLineSegment st") (simp_all add: onPath_def)
    from o seg lY have f: "ws_pathVertices st \<noteq> []"
      "ws_currentSegmentDistance st = pointMag seg"
      "pathLength (hd (ws_pathVertices st)) (tl (ws_pathVertices st)) = ws_distanceFromAnchor st"
      "ws_offsetIntersectionPoint st = Some (pointAdd (last (ws_pathVertices st)) seg)"
      by (simp_all add: onPath_def)
    have op: "offsetPreviousOf st n = pointAdd (last (ws_pathVertices st)) seg"
      by (simp add: offsetPreviousOf_def f(4))
    have d: "pointSub (offsetPreviousOf st n) (last (ws_pathVertices st)) = seg"
      by (simp add: op pointSub_pointAdd)
    show ?thesis
      by (simp add: onPath_def st' offsetSection_def lY pointAdd_pointSub f(1)
                    pathLength_append_last [OF f(1)] d f(2,3))
  qed
qed

lemma walkAfter_onPath:
  "atStart (fst s) \<or> onPath W (fst s) \<Longrightarrow> walkAfter W (Suc n) s = Some (st', cache')
     \<Longrightarrow> onPath W st'"
proof (induction n arbitrary: s)
  case 0
  from 0(2) have c: "accumulated (fst s) \<le> wp_absOffsetX W" by (simp split: if_splits)
  with 0(2) have b: "walkBody W (fst s) (snd s) = Continue st' cache'"
    by (cases "walkBody W (fst s) (snd s)") simp_all
  from walkBody_onPath [OF 0(1) b] show ?case .
next
  case (Suc n)
  from Suc.prems(2) have c: "accumulated (fst s) \<le> wp_absOffsetX W" by (simp split: if_splits)
  with Suc.prems(2) obtain st1 c1 where b: "walkBody W (fst s) (snd s) = Continue st1 c1"
    and a: "walkAfter W (Suc n) (st1, c1) = Some (st', cache')"
    by (cases "walkBody W (fst s) (snd s)") simp_all
  have "onPath W st1" by (rule walkBody_onPath [OF Suc.prems(1) b])
  then have "atStart (fst (st1, c1)) \<or> onPath W (fst (st1, c1))" by simp
  from Suc.IH [OF this a] show ?case .
qed

lemma glyphOnSegment_path:
  assumes o: "onPath W st"
      and d: "ws_distanceFromAnchor st \<le> T"
      and g: "glyphOnSegment T a rot st = Some g"
  shows "pg_path g \<noteq> [] \<and> last (pg_path g) = pg_point g
         \<and> pathLength (hd (pg_path g)) (tl (pg_path g)) = T"
proof -
  from o obtain seg where seg: "ws_currentLineSegment st = Some seg"
    by (cases "ws_currentLineSegment st") (simp_all add: onPath_def)
  from o seg have f: "ws_pathVertices st \<noteq> []"
      "ws_currentSegmentDistance st = pointMag seg"
      "pathLength (hd (ws_pathVertices st)) (tl (ws_pathVertices st)) = ws_distanceFromAnchor st"
      "(case ws_offsetPreviousVertex st of Some q \<Rightarrow> q | None \<Rightarrow> ws_previousVertex st)
         = last (ws_pathVertices st)"
    by (simp_all add: onPath_def)
  from g seg have nz: "ws_currentSegmentDistance st \<noteq> 0"
    by (auto simp add: glyphOnSegment_def split: if_splits)
  define t where "t = (T - ws_distanceFromAnchor st) / ws_currentSegmentDistance st"
  define p where "p = pointAdd (pointMult seg t) (last (ws_pathVertices st))"
  from g seg nz have gp: "pg_point g = p" "pg_path g = ws_pathVertices st @ [p]"
    by (auto simp add: glyphOnSegment_def Let_def t_def p_def f(4))
  have pos: "0 < ws_currentSegmentDistance st" using nz f(2) pointMag_nonneg [of seg] by simp
  have t0: "0 \<le> t" using d pos by (simp add: t_def)
  have "pointSub p (last (ws_pathVertices st)) = pointMult seg t"
    by (simp add: p_def pointSub_def pointAdd_def)
  then have "pointMag (pointSub p (last (ws_pathVertices st))) = t * pointMag seg"
    using t0 by (simp add: pointMag_pointMult)
  also have "\<dots> = T - ws_distanceFromAnchor st"
    using nz by (simp add: t_def f(2))
  finally have m: "pointMag (pointSub p (last (ws_pathVertices st))) = T - ws_distanceFromAnchor st" .
  have h: "hd (ws_pathVertices st @ [p]) = hd (ws_pathVertices st)"
    "tl (ws_pathVertices st @ [p]) = tl (ws_pathVertices st) @ [p]"
    using f(1) by simp_all
  show ?thesis
    by (simp add: gp h pathLength_append_last [OF f(1)] m f(3))
qed

lemma walkBegin_atStart: "atStart (fst (walkBegin W seg cache))"
  by (simp add: walkBegin_def walkStart_def atStart_def)

lemma placeGlyphAlongLine_path:
  assumes "placeGlyphAlongLine F oX lX lY flip seg ls le args rot cache = Some (Some g, cache')"
  shows "pg_path g \<noteq> [] \<and> last (pg_path g) = pg_point g
         \<and> pathLength (hd (pg_path g)) (tl (pg_path g)) = \<bar>combinedOffset oX lX flip\<bar>"
proof -
  define W where "W = walkParams F args oX lX lY flip ls le"
  have d: "wp_direction W \<noteq> 0" using walkParams_direction [of F args oX lX lY flip ls le]
    by (auto simp add: W_def)
  have T: "wp_absOffsetX W = \<bar>combinedOffset oX lX flip\<bar>" by (simp add: W_def walkParams_fields)
  have T0: "0 \<le> wp_absOffsetX W" by (simp add: T)
  from assms obtain st where
    w: "walk W (fst (walkBegin W seg cache)) (snd (walkBegin W seg cache)) = Some (Some st, cache')"
    and g: "glyphOnSegment (wp_absOffsetX W) (walkAngle (combinedOffset oX lX flip) flip) rot st
              = Some g"
    unfolding placeGlyphAlongLine_walk W_def [symmetric]
    by (auto split: option.splits)
  from walk_reached [OF d T0 w] obtain n where
    n: "walkAfter W (Suc n) (walkBegin W seg cache) = Some (st, cache')"
    by blast
  have o: "onPath W st"
    by (rule walkAfter_onPath [OF _ n]) (simp add: walkBegin_atStart)
  from walkAfter_bracket [OF n] have b: "ws_distanceFromAnchor st \<le> wp_absOffsetX W" by simp
  from glyphOnSegment_path [OF o b g] show ?thesis by (simp add: T)
qed

subsection \<open>A line with a corner and a line offset\<close>

lemma pointMag_vertical: "pointMag (0, b) = \<bar>b\<bar>"
  by (simp add: pointMag_def)

lemma cornerLine_fields:
  "lineVertexArray cornerLine 1 = Some (100, 0)"
  "lineVertexArray cornerLine 2 = Some (100, 100)"
  "tileAnchorPoint cornerLine = (0, 0)"
  "projectTileCoordinatesToViewport cornerLine p = (p, 1)"
  by (simp_all add: cornerLine_def projectTileCoordinatesToViewport_def)

lemma normal_east: "transformToOffsetNormal (100, 0) (- 10) 1 = Some (0, - 10)"
  by (simp add: transformToOffsetNormal_def pointUnit_def pointMag_horizontal pointPerp_def
                pointMult_def)

lemma normal_south: "transformToOffsetNormal (0, 100) (- 10) 1 = Some (10, 0)"
  by (simp add: transformToOffsetNormal_def pointUnit_def pointMag_vertical pointPerp_def
                pointMult_def)

lemma corner_meet:
  "lineIntersection (0, - 10) (100, - 10) (110, 0) (110, 100) = Some (110, - 10)"
  by (simp add: lineIntersection_def Let_def)

lemma corner_anchor: "anchorPointOf cornerLine emptyCache = ((0, 0), cornerCacheA)"
  by (simp add: anchorPointOf_def emptyCache_def cornerLine_fields Let_def cornerCacheA_def)

lemma corner_vertex1:
  "projectVertexToViewport 1 cornerLine sv cornerCacheA = Some ((100, 0), cornerCacheB)"
  by (simp add: projectVertexToViewport_def cornerLine_fields Let_def cornerCacheA_def cornerCacheB_def)

lemma corner_vertex2:
  "projectVertexToViewport 2 cornerLine sv cornerCacheB
     = Some ((100, 100), cornerCacheB\<lparr>projections := [1 \<mapsto> (100, 0), 2 \<mapsto> (100, 100)]\<rparr>)"
  by (simp add: projectVertexToViewport_def cornerLine_fields Let_def cornerCacheB_def)

lemma corner_vertex2_cached:
  "projectVertexToViewport 2 cornerLine sv cornerCacheC = Some ((100, 100), cornerCacheC)"
  by (simp add: projectVertexToViewport_def cornerCacheC_def)

lemma corner_caches:
  "offsets cornerCacheB 1 = None" "offsets cornerCacheC 2 = None"
  "cornerCacheB\<lparr>projections := [1 \<mapsto> (100, 0), 2 \<mapsto> (100, 100)],
       offsets := (offsets cornerCacheB)(1 \<mapsto> (110, - 10))\<rparr> = cornerCacheC"
  "cornerCacheC\<lparr>offsets := (offsets cornerCacheC)(2 \<mapsto> (110, 100))\<rparr> = cornerCache"
  by (simp_all add: cornerCacheB_def cornerCacheC_def cornerCache_def)

lemma corner_offset1:
  "direction sv = 1 \<Longrightarrow>
   findOffsetIntersectionPoint lineIntersection 1 (0, - 10) (100, 0) 0 3 (0, - 10) (- 10)
       cornerLine sv cornerCacheB
     = Some ((110, - 10), cornerCacheC)"
  by (simp add: findOffsetIntersectionPoint_def Let_def corner_vertex2 pointAdd_def pointSub_def
                normal_south corner_meet corner_caches)

lemma corner_offset2:
  "direction sv = 1 \<Longrightarrow>
   findOffsetIntersectionPoint lineIntersection 2 (10, 0) (100, 100) 0 3 (110, - 10) (- 10)
       cornerLine sv cornerCacheC
     = Some ((110, 100), cornerCache)"
  by (simp add: findOffsetIntersectionPoint_def Let_def pointAdd_def corner_caches)

lemma corner_place:
  "placeGlyphAlongLine lineIntersection 210 0 (- 10) False 0 0 3 cornerLine False emptyCache
     = Some (Some \<lparr>pg_point = (110, 90), pg_angle = 0,
                    pg_path = [(0, - 10), (110, - 10), (110, 90)]\<rparr>, cornerCache)"
proof -
  define W where "W = walkParams lineIntersection cornerLine 210 0 (- 10) False 0 3"
  have W: "wp_args W = cornerLine" "wp_lineOffsetY W = - 10" "wp_direction W = 1"
    "wp_absOffsetX W = 210" "wp_lineStartIndex W = 0" "wp_lineEndIndex W = 3"
    "wp_findLineIntersection W = lineIntersection"
    by (simp_all add: W_def walkParams_def walkDirection_def combinedOffset_def)
  define s0 where "s0 = walkStart 1 0 0 (0, 0)"
  define s1 where "s1 = offsetSection s0 1 (100, 0) (0, - 10) (110, - 10)"
  define s2 where "s2 = offsetSection s1 2 (100, 100) (110, - 10) (110, 100)"
  have b: "walkBegin W 0 emptyCache = (s0, cornerCacheA)"
    by (simp add: walkBegin_def W corner_anchor s0_def)
  have i0: "ws_currentIndex s0 = 0" "ws_currentVertex s0 = (0, 0)"
    "ws_offsetIntersectionPoint s0 = None"
    "ws_distanceFromAnchor s0 = 0" "ws_currentSegmentDistance s0 = 0"
    by (simp_all add: s0_def walkStart_def)
  have i1: "ws_currentIndex s1 = 1" "ws_currentVertex s1 = (100, 0)"
    "ws_offsetIntersectionPoint s1 = Some (110, - 10)"
    "ws_distanceFromAnchor s1 = 0" "ws_currentSegmentDistance s1 = 110"
    by (simp_all add: s1_def offsetSection_def i0 pointSub_def pointMag_horizontal)
  have i2: "ws_distanceFromAnchor s2 = 110" "ws_currentSegmentDistance s2 = 110"
    by (simp_all add: s2_def offsetSection_def i1 pointSub_def pointMag_vertical)
  have n1: "sectionNormal W (syntheticVertexArgsOf W s0) 1 (100, 0) (0, 0) cornerCacheB
              = Some ((0, - 10), cornerCacheB)"
    by (simp add: sectionNormal_def Let_def pointSub_def pointMag_horizontal W normal_east)
  have n2: "sectionNormal W (syntheticVertexArgsOf W s1) 2 (100, 100) (100, 0) cornerCacheC
              = Some ((10, 0), cornerCacheC)"
    by (simp add: sectionNormal_def Let_def pointSub_def pointMag_vertical W normal_south)
  have d: "direction (syntheticVertexArgsOf W s0) = 1" "direction (syntheticVertexArgsOf W s1) = 1"
    by (simp_all add: syntheticVertexArgsOf_def W)
  have b1: "walkBody W s0 cornerCacheA = Continue s1 cornerCacheC"
    by (simp add: walkBody_def Let_def W i0 corner_vertex1 n1 offsetPreviousOf_def pointAdd_def
                  corner_offset1 [OF d(1)] s1_def)
  have b2: "walkBody W s1 cornerCacheC = Continue s2 cornerCache"
    by (simp add: walkBody_def Let_def W i1 corner_vertex2_cached n2 offsetPreviousOf_def
                  corner_offset2 [OF d(2)] s2_def)
  have "walk W s0 cornerCacheA = walk W s1 cornerCacheC"
    by (rule walk_continue [OF _ b1]) (simp_all add: W i0)
  also have "\<dots> = walk W s2 cornerCache"
    by (rule walk_continue [OF _ b2]) (simp_all add: W i1)
  also have "\<dots> = Some (Some s2, cornerCache)"
    by (rule walk_stop) (simp add: W i2)
  finally have w: "walk W s0 cornerCacheA = Some (Some s2, cornerCache)" .
  have g: "glyphOnSegment (wp_absOffsetX W) (walkAngle (combinedOffset 210 0 False) False) False s2
           = Some \<lparr>pg_point = (110, 90), pg_angle = 0,
                    pg_path = [(0, - 10), (110, - 10), (110, 90)]\<rparr>"
    by (simp add: glyphOnSegment_def Let_def W s2_def s1_def s0_def offsetSection_def
                  walkStart_def pointSub_def pointMult_def pointAdd_def pointMag_horizontal
                  pointMag_vertical)
  show ?thesis
    unfolding placeGlyphAlongLine_walk W_def [symmetric] b
    using w g by simp
qed

lemma corner_remaining:
  "remainingLength (walkParams lineIntersection cornerLine 210 0 (- 10) False 0 3)
     (fst (walkBegin (walkParams lineIntersection cornerLine 210 0 (- 10) False 0 3) 0 emptyCache))
   = 200"
proof -
  have i: "walkIndices 1 0 3 0 = [1, 2]" by (simp add: walkIndices_def upto.simps)
  have p: "projected cornerLine 1 = (100, 0)" "projected cornerLine 2 = (100, 100)"
    by (simp_all add: projected_def cornerLine_fields)
  show ?thesis
    by (simp add: remainingLength_def walkBegin_def walkParams_fields walkDirection_def
                  combinedOffset_def corner_anchor walkStart_def i p pointSub_def
                  pointMag_horizontal pointMag_vertical)
qed

lemma corner_body1:
  assumes W: "wp_args W = cornerLine" "wp_lineOffsetY W = - 10" "wp_direction W = 1"
             "wp_lineStartIndex W = 0" "wp_lineEndIndex W = 3"
             "wp_findLineIntersection W = lineIntersection"
      and st: "ws_currentIndex st = 0" "ws_currentVertex st = (0, 0)"
              "ws_offsetIntersectionPoint st = None"
      and v: "projectVertexToViewport 1 cornerLine (syntheticVertexArgsOf W st) c
                = Some ((100, 0), c1)"
      and f: "findOffsetIntersectionPoint lineIntersection 1 (0, - 10) (100, 0) 0 3 (0, - 10)
                (- 10) cornerLine (syntheticVertexArgsOf W st) c1 = Some ((110, - 10), c2)"
  shows "walkBody W st c = Continue (offsetSection st 1 (100, 0) (0, - 10) (110, - 10)) c2"
proof -
  have n: "sectionNormal W (syntheticVertexArgsOf W st) 1 (100, 0) (0, 0) c1
             = Some ((0, - 10), c1)"
    by (simp add: sectionNormal_def Let_def pointSub_def pointMag_horizontal W normal_east)
  show ?thesis
    by (simp add: walkBody_def Let_def W st v n offsetPreviousOf_def pointAdd_def f)
qed

lemma corner_body2:
  assumes W: "wp_args W = cornerLine" "wp_lineOffsetY W = - 10" "wp_direction W = 1"
             "wp_lineStartIndex W = 0" "wp_lineEndIndex W = 3"
             "wp_findLineIntersection W = lineIntersection"
      and st: "ws_currentIndex st = 1" "ws_currentVertex st = (100, 0)"
              "ws_offsetIntersectionPoint st = Some (110, - 10)"
      and v: "projectVertexToViewport 2 cornerLine (syntheticVertexArgsOf W st) c
                = Some ((100, 100), c1)"
      and f: "findOffsetIntersectionPoint lineIntersection 2 (10, 0) (100, 100) 0 3 (110, - 10)
                (- 10) cornerLine (syntheticVertexArgsOf W st) c1 = Some ((110, 100), c2)"
  shows "walkBody W st c = Continue (offsetSection st 2 (100, 100) (110, - 10) (110, 100)) c2"
proof -
  have n: "sectionNormal W (syntheticVertexArgsOf W st) 2 (100, 100) (100, 0) c1
             = Some ((10, 0), c1)"
    by (simp add: sectionNormal_def Let_def pointSub_def pointMag_vertical W normal_south)
  show ?thesis
    by (simp add: walkBody_def Let_def W st v n offsetPreviousOf_def f)
qed

lemma cornerCache_fields:
  "cachedAnchorPoint cornerCacheC = Some (0, 0)" "cachedAnchorPoint cornerCache = Some (0, 0)"
  "projections cornerCacheC 1 = Some (100, 0)" "projections cornerCache 1 = Some (100, 0)"
  "projections cornerCacheC 2 = Some (100, 100)" "projections cornerCache 2 = Some (100, 100)"
  "offsets cornerCacheC 1 = Some (110, - 10)" "offsets cornerCache 1 = Some (110, - 10)"
  "offsets cornerCache 2 = Some (110, 100)"
  by (simp_all add: cornerCacheC_def cornerCache_def)

text \<open>The first glyph, 50 units along the offset line, on an empty cache.\<close>

lemma corner_first:
  "placeGlyphAlongLine lineIntersection 50 0 (- 10) False 0 0 3 cornerLine False emptyCache
     = Some (Some \<lparr>pg_point = (50, - 10), pg_angle = 0, pg_path = [(0, - 10), (50, - 10)]\<rparr>,
             cornerCacheC)"
proof -
  define W where "W = walkParams lineIntersection cornerLine 50 0 (- 10) False 0 3"
  have W: "wp_args W = cornerLine" "wp_lineOffsetY W = - 10" "wp_direction W = 1"
    "wp_lineStartIndex W = 0" "wp_lineEndIndex W = 3"
    "wp_findLineIntersection W = lineIntersection"
    and T: "wp_absOffsetX W = 50"
    by (simp_all add: W_def walkParams_def walkDirection_def combinedOffset_def)
  define s0 where "s0 = walkStart 1 0 0 (0, 0)"
  define s1 where "s1 = offsetSection s0 1 (100, 0) (0, - 10) (110, - 10)"
  have b: "walkBegin W 0 emptyCache = (s0, cornerCacheA)"
    by (simp add: walkBegin_def W corner_anchor s0_def)
  have i0: "ws_currentIndex s0 = 0" "ws_currentVertex s0 = (0, 0)"
    "ws_offsetIntersectionPoint s0 = None"
    "ws_distanceFromAnchor s0 = 0" "ws_currentSegmentDistance s0 = 0"
    by (simp_all add: s0_def walkStart_def)
  have i1: "ws_distanceFromAnchor s1 = 0" "ws_currentSegmentDistance s1 = 110"
    by (simp_all add: s1_def offsetSection_def i0 pointSub_def pointMag_horizontal)
  have d: "direction (syntheticVertexArgsOf W s0) = 1"
    by (simp add: syntheticVertexArgsOf_def W)
  have b1: "walkBody W s0 cornerCacheA = Continue s1 cornerCacheC"
    unfolding s1_def
    by (rule corner_body1 [OF W i0(1-3) corner_vertex1 corner_offset1 [OF d]])
  have "walk W s0 cornerCacheA = walk W s1 cornerCacheC"
    by (rule walk_continue [OF _ b1]) (simp_all add: W T i0)
  also have "\<dots> = Some (Some s1, cornerCacheC)"
    by (rule walk_stop) (simp add: W T i1)
  finally have w: "walk W s0 cornerCacheA = Some (Some s1, cornerCacheC)" .
  have g: "glyphOnSegment (wp_absOffsetX W) (walkAngle (combinedOffset 50 0 False) False) False s1
           = Some \<lparr>pg_point = (50, - 10), pg_angle = 0, pg_path = [(0, - 10), (50, - 10)]\<rparr>"
    by (simp add: glyphOnSegment_def Let_def T s1_def s0_def offsetSection_def
                  walkStart_def pointSub_def pointMult_def pointAdd_def pointMag_horizontal
                  pointMag_vertical)
  show ?thesis
    unfolding placeGlyphAlongLine_walk W_def [symmetric] b
    using w g by simp
qed

text \<open>The last glyph, 210 units along the offset line, on the cache the first one left.\<close>

lemma corner_last:
  "placeGlyphAlongLine lineIntersection 210 0 (- 10) False 0 0 3 cornerLine False cornerCacheC
     = Some (Some \<lparr>pg_point = (110, 90), pg_angle = 0,
                    pg_path = [(0, - 10), (110, - 10), (110, 90)]\<rparr>, cornerCache)"
proof -
  define W where "W = walkParams lineIntersection cornerLine 210 0 (- 10) False 0 3"
  have W: "wp_args W = cornerLine" "wp_lineOffsetY W = - 10" "wp_direction W = 1"
    "wp_lineStartIndex W = 0" "wp_lineEndIndex W = 3"
    "wp_findLineIntersection W = lineIntersection"
    and T: "wp_absOffsetX W = 210"
    by (simp_all add: W_def walkParams_def walkDirection_def combinedOffset_def)
  define s0 where "s0 = walkStart 1 0 0 (0, 0)"
  define s1 where "s1 = offsetSection s0 1 (100, 0) (0, - 10) (110, - 10)"
  define s2 where "s2 = offsetSection s1 2 (100, 100) (110, - 10) (110, 100)"
  have b: "walkBegin W 0 cornerCacheC = (s0, cornerCacheC)"
    by (simp add: walkBegin_cached [OF cornerCache_fields(1)] W s0_def)
  have i0: "ws_currentIndex s0 = 0" "ws_currentVertex s0 = (0, 0)"
    "ws_offsetIntersectionPoint s0 = None"
    "ws_distanceFromAnchor s0 = 0" "ws_currentSegmentDistance s0 = 0"
    by (simp_all add: s0_def walkStart_def)
  have i1: "ws_currentIndex s1 = 1" "ws_currentVertex s1 = (100, 0)"
    "ws_offsetIntersectionPoint s1 = Some (110, - 10)"
    "ws_distanceFromAnchor s1 = 0" "ws_currentSegmentDistance s1 = 110"
    by (simp_all add: s1_def offsetSection_def i0 pointSub_def pointMag_horizontal)
  have i2: "ws_distanceFromAnchor s2 = 110" "ws_currentSegmentDistance s2 = 110"
    by (simp_all add: s2_def offsetSection_def i1 pointSub_def pointMag_vertical)
  have d: "direction (syntheticVertexArgsOf W s1) = 1"
    by (simp add: syntheticVertexArgsOf_def W)
  have b1: "walkBody W s0 cornerCacheC = Continue s1 cornerCacheC"
    unfolding s1_def
    by (rule corner_body1 [OF W i0(1-3)
          projectVertexToViewport_cached [OF cornerCache_fields(3)]
          findOffsetIntersectionPoint_cached [OF cornerCache_fields(7)]])
  have b2: "walkBody W s1 cornerCacheC = Continue s2 cornerCache"
    unfolding s2_def
    by (rule corner_body2 [OF W i1(1-3)
          projectVertexToViewport_cached [OF cornerCache_fields(5)] corner_offset2 [OF d]])
  have "walk W s0 cornerCacheC = walk W s1 cornerCacheC"
    by (rule walk_continue [OF _ b1]) (simp_all add: W T i0)
  also have "\<dots> = walk W s2 cornerCache"
    by (rule walk_continue [OF _ b2]) (simp_all add: W T i1)
  also have "\<dots> = Some (Some s2, cornerCache)"
    by (rule walk_stop) (simp add: W T i2)
  finally have w: "walk W s0 cornerCacheC = Some (Some s2, cornerCache)" .
  have g: "glyphOnSegment (wp_absOffsetX W) (walkAngle (combinedOffset 210 0 False) False) False s2
           = Some \<lparr>pg_point = (110, 90), pg_angle = 0,
                    pg_path = [(0, - 10), (110, - 10), (110, 90)]\<rparr>"
    by (simp add: glyphOnSegment_def Let_def T s2_def s1_def s0_def offsetSection_def
                  walkStart_def pointSub_def pointMult_def pointAdd_def pointMag_horizontal
                  pointMag_vertical)
  show ?thesis
    unfolding placeGlyphAlongLine_walk W_def [symmetric] b
    using w g by simp
qed

text \<open>The glyph between them, 150 units along the offset line, finds everything cached.\<close>

lemma corner_middle:
  "placeGlyphAlongLine lineIntersection 150 0 (- 10) False 0 0 3 cornerLine False cornerCache
     = Some (Some \<lparr>pg_point = (110, 30), pg_angle = 0,
                    pg_path = [(0, - 10), (110, - 10), (110, 30)]\<rparr>, cornerCache)"
proof -
  define W where "W = walkParams lineIntersection cornerLine 150 0 (- 10) False 0 3"
  have W: "wp_args W = cornerLine" "wp_lineOffsetY W = - 10" "wp_direction W = 1"
    "wp_lineStartIndex W = 0" "wp_lineEndIndex W = 3"
    "wp_findLineIntersection W = lineIntersection"
    and T: "wp_absOffsetX W = 150"
    by (simp_all add: W_def walkParams_def walkDirection_def combinedOffset_def)
  define s0 where "s0 = walkStart 1 0 0 (0, 0)"
  define s1 where "s1 = offsetSection s0 1 (100, 0) (0, - 10) (110, - 10)"
  define s2 where "s2 = offsetSection s1 2 (100, 100) (110, - 10) (110, 100)"
  have b: "walkBegin W 0 cornerCache = (s0, cornerCache)"
    by (simp add: walkBegin_cached [OF cornerCache_fields(2)] W s0_def)
  have i0: "ws_currentIndex s0 = 0" "ws_currentVertex s0 = (0, 0)"
    "ws_offsetIntersectionPoint s0 = None"
    "ws_distanceFromAnchor s0 = 0" "ws_currentSegmentDistance s0 = 0"
    by (simp_all add: s0_def walkStart_def)
  have i1: "ws_currentIndex s1 = 1" "ws_currentVertex s1 = (100, 0)"
    "ws_offsetIntersectionPoint s1 = Some (110, - 10)"
    "ws_distanceFromAnchor s1 = 0" "ws_currentSegmentDistance s1 = 110"
    by (simp_all add: s1_def offsetSection_def i0 pointSub_def pointMag_horizontal)
  have i2: "ws_distanceFromAnchor s2 = 110" "ws_currentSegmentDistance s2 = 110"
    by (simp_all add: s2_def offsetSection_def i1 pointSub_def pointMag_vertical)
  have b1: "walkBody W s0 cornerCache = Continue s1 cornerCache"
    unfolding s1_def
    by (rule corner_body1 [OF W i0(1-3)
          projectVertexToViewport_cached [OF cornerCache_fields(4)]
          findOffsetIntersectionPoint_cached [OF cornerCache_fields(8)]])
  have b2: "walkBody W s1 cornerCache = Continue s2 cornerCache"
    unfolding s2_def
    by (rule corner_body2 [OF W i1(1-3)
          projectVertexToViewport_cached [OF cornerCache_fields(6)]
          findOffsetIntersectionPoint_cached [OF cornerCache_fields(9)]])
  have "walk W s0 cornerCache = walk W s1 cornerCache"
    by (rule walk_continue [OF _ b1]) (simp_all add: W T i0)
  also have "\<dots> = walk W s2 cornerCache"
    by (rule walk_continue [OF _ b2]) (simp_all add: W T i1)
  also have "\<dots> = Some (Some s2, cornerCache)"
    by (rule walk_stop) (simp add: W T i2)
  finally have w: "walk W s0 cornerCache = Some (Some s2, cornerCache)" .
  have g: "glyphOnSegment (wp_absOffsetX W) (walkAngle (combinedOffset 150 0 False) False) False s2
           = Some \<lparr>pg_point = (110, 30), pg_angle = 0,
                    pg_path = [(0, - 10), (110, - 10), (110, 30)]\<rparr>"
    by (simp add: glyphOnSegment_def Let_def T s2_def s1_def s0_def offsetSection_def
                  walkStart_def pointSub_def pointMult_def pointAdd_def pointMag_horizontal
                  pointMag_vertical)
  show ?thesis
    unfolding placeGlyphAlongLine_walk W_def [symmetric] b
    using w g by simp
qed

lemma cornerGlyphs_sorted: "sortedOffsets cornerOffsets cornerGlyphs"
  by (simp add: sortedOffsets_def glyphOffsets_def cornerOffsets_def cornerGlyphs_def upto_0_2)

lemma cornerGlyphs_firstAndLast:
  "placeFirstAndLastGlyph lineIntersection 1 cornerOffsets 0 (- 10) False cornerGlyphs False
       cornerLine emptyCache
     = Some (Some (\<lparr>pg_point = (50, - 10), pg_angle = 0, pg_path = [(0, - 10), (50, - 10)]\<rparr>,
                   \<lparr>pg_point = (110, 90), pg_angle = 0,
                    pg_path = [(0, - 10), (110, - 10), (110, 90)]\<rparr>), cornerCache)"
  by (simp add: placeFirstAndLastGlyph_def Let_def cornerOffsets_def cornerGlyphs_def
                corner_first corner_last)

lemma cornerGlyphs_interior:
  "placeInteriorGlyphs lineIntersection 1 cornerOffsets 0 (- 10) False cornerGlyphs False
       cornerLine (interiorGlyphIndices cornerGlyphs) cornerCache
     = Some ([Some \<lparr>pg_point = (110, 30), pg_angle = 0,
                     pg_path = [(0, - 10), (110, - 10), (110, 30)]\<rparr>], cornerCache)"
  by (simp add: interiorGlyphIndices_def cornerOffsets_def cornerGlyphs_def corner_middle)

subsection \<open>The claims about the placement of glyphs\<close>

text \<open>
  C2. For a label whose glyph offsets are in non-decreasing order, scaled by a font scale
  that is not negative: when \<^verbatim>\<open>placeFirstAndLastGlyph\<close> has placed the first and the last
  glyph, every call of \<^verbatim>\<open>placeGlyphAlongLine\<close> that the loop of \<^verbatim>\<open>placeGlyphsAlongLine\<close> makes
  for a glyph between them, with the same line range, anchor segment, flip flag and line
  offsets, on the projection cache the two calls left, returns a glyph and not null. (The
  model has no result where the program computes with NaN; a result of the loop is the
  list of what the calls returned.)
\<close>

theorem interior_glyphs_placed:
  assumes fs: "0 \<le> fontScale"
      and so: "sortedOffsets glyphOffsetArray symbol"
      and fl: "placeFirstAndLastGlyph F fontScale glyphOffsetArray lineOffsetX lineOffsetY flip
                 symbol rotateToLine args cache = Some (Some firstAndLast, cache2)"
      and inner: "placeInteriorGlyphs F fontScale glyphOffsetArray lineOffsetX lineOffsetY flip
                 symbol rotateToLine args (interiorGlyphIndices symbol) cache2
                   = Some (placed, cache3)"
  shows "list_all (\<lambda>p. p \<noteq> None) placed"
proof -
  from fl obtain a c gF c1 gL where
    a: "glyphOffsetArray (glyphStartIndex symbol) = Some a"
    and c: "glyphOffsetArray (glyphStartIndex symbol + numGlyphs symbol - 1) = Some c"
    and PF: "placeGlyphAlongLine F (fontScale * a) lineOffsetX lineOffsetY flip (segment symbol)
               (lineStartIndex symbol) (lineStartIndex symbol + lineLength symbol) args
               rotateToLine cache = Some (Some gF, c1)"
    and PL: "placeGlyphAlongLine F (fontScale * c) lineOffsetX lineOffsetY flip (segment symbol)
               (lineStartIndex symbol) (lineStartIndex symbol + lineLength symbol) args
               rotateToLine c1 = Some (Some gL, cache2)"
    by (auto simp add: placeFirstAndLastGlyph_def Let_def split: option.splits)
  have e: "cacheExtends args c1 cache2" by (rule placeGlyphAlongLine_extends [OF PL])
  from sortedOffsets_between [OF so a c] e cacheExtends_refl inner
  show ?thesis by (rule placeInteriorGlyphs_placed [OF fs PF PL])
qed

theorem interior_glyphs_placed_witness:
  "sortedOffsets cornerOffsets cornerGlyphs
   \<and> placeFirstAndLastGlyph lineIntersection 1 cornerOffsets 0 (- 10) False cornerGlyphs False
       cornerLine emptyCache
     = Some (Some (\<lparr>pg_point = (50, - 10), pg_angle = 0, pg_path = [(0, - 10), (50, - 10)]\<rparr>,
                   \<lparr>pg_point = (110, 90), pg_angle = 0,
                    pg_path = [(0, - 10), (110, - 10), (110, 90)]\<rparr>), cornerCache)
   \<and> placeInteriorGlyphs lineIntersection 1 cornerOffsets 0 (- 10) False cornerGlyphs False
       cornerLine (interiorGlyphIndices cornerGlyphs) cornerCache
     = Some ([Some \<lparr>pg_point = (110, 30), pg_angle = 0,
                     pg_path = [(0, - 10), (110, - 10), (110, 30)]\<rparr>], cornerCache)
   \<and> list_all (\<lambda>p. p \<noteq> None)
        [Some \<lparr>pg_point = (110, 30), pg_angle = 0,
               pg_path = [(0, - 10), (110, - 10), (110, 30)]\<rparr>]
   \<and> sortedOffsets threeOffsets threeGlyphs
   \<and> placeFirstAndLastGlyph noIntersection 1 threeOffsets 0 0 False threeGlyphs False straightLine
       emptyCache
     = Some (Some (\<lparr>pg_point = (102, 100), pg_angle = 0, pg_path = [(105, 100), (102, 100)]\<rparr>,
                   \<lparr>pg_point = (117, 100), pg_angle = 0,
                    pg_path = [(105, 100), (110, 100), (117, 100)]\<rparr>), cacheE)
   \<and> placeInteriorGlyphs noIntersection 1 threeOffsets 0 0 False threeGlyphs False straightLine
       (interiorGlyphIndices threeGlyphs) cacheE
     = Some ([Some \<lparr>pg_point = (109, 100), pg_angle = 0, pg_path = [(105, 100), (109, 100)]\<rparr>],
             cacheE)
   \<and> list_all (\<lambda>p. p \<noteq> None)
        [Some \<lparr>pg_point = (109, 100), pg_angle = 0, pg_path = [(105, 100), (109, 100)]\<rparr>]"
proof -
  have corner: "list_all (\<lambda>p. p \<noteq> None)
        [Some \<lparr>pg_point = (110, 30), pg_angle = 0,
               pg_path = [(0, - 10), (110, - 10), (110, 30)]\<rparr>]"
    by (rule interior_glyphs_placed
          [OF _ cornerGlyphs_sorted cornerGlyphs_firstAndLast cornerGlyphs_interior]) simp
  have straight: "list_all (\<lambda>p. p \<noteq> None)
        [Some \<lparr>pg_point = (109, 100), pg_angle = 0, pg_path = [(105, 100), (109, 100)]\<rparr>]"
    by (rule interior_glyphs_placed
          [OF _ threeGlyphs_sorted threeGlyphs_firstAndLast threeGlyphs_interior]) simp
  show ?thesis
    by (intro conjI)
       (rule cornerGlyphs_sorted, rule cornerGlyphs_firstAndLast, rule cornerGlyphs_interior,
        rule corner, rule threeGlyphs_sorted, rule threeGlyphs_firstAndLast,
        rule threeGlyphs_interior, rule straight)
qed

text \<open>
  C1. A call returns null exactly when its walk comes, after some number of turns, to a
  state where the distance accumulated along the path it follows has not passed the
  absolute combined offset and the next vertex is outside the line's range. It returns a
  glyph exactly when the walk comes, after at least one turn, to a vertex inside the range
  where the distance from the anchor is at most the offset and the accumulated distance is
  beyond it. The path of a returned glyph is not empty, ends at the glyph's point, and its
  length as a polyline is the absolute combined offset: the path is the projected line, or,
  with a line offset, the line of the offset intersection points, which can be longer than
  the projected line. Without a line offset, on a cache of true projections and with the
  vertices up to the end of the line in front of the camera, the call returns null when
  the remaining length of the line from the anchor is at most the offset, and a glyph
  otherwise.
\<close>

theorem placeGlyphAlongLine_null_iff_leaves_range:
  "let W = walkParams F args oX lX lY flip ls le;
       T = \<bar>combinedOffset oX lX flip\<bar>;
       start = walkBegin W seg cache
   in (placeGlyphAlongLine F oX lX lY flip seg ls le args rot cache = Some (None, cache')
         \<longleftrightarrow> (\<exists>n st. walkAfter W n start = Some (st, cache')
                \<and> accumulated st \<le> T \<and> leavesRange W st))
      \<and> ((\<exists>g. placeGlyphAlongLine F oX lX lY flip seg ls le args rot cache = Some (Some g, cache'))
         \<longleftrightarrow> (\<exists>n st. walkAfter W (Suc n) start = Some (st, cache')
                \<and> ls \<le> ws_currentIndex st \<and> ws_currentIndex st < le
                \<and> ws_distanceFromAnchor st \<le> T \<and> T < accumulated st))
      \<and> (placeGlyphAlongLine F oX lX lY flip seg ls le args rot cache = Some (Some g, cache')
         \<longrightarrow> pg_path g \<noteq> [] \<and> last (pg_path g) = pg_point g
             \<and> pathLength (hd (pg_path g)) (tl (pg_path g)) = T)
      \<and> (lY = 0 \<and> cacheTrue args cache
          \<and> list_all (visible args) (walkIndices (wp_direction W) ls le (ws_currentIndex (fst start)))
         \<longrightarrow> (if remainingLength W (fst start) \<le> T
              then \<exists>c. placeGlyphAlongLine F oX lX lY flip seg ls le args rot cache = Some (None, c)
              else \<exists>g c. placeGlyphAlongLine F oX lX lY flip seg ls le args rot cache
                          = Some (Some g, c)))"
proof -
  note a = placeGlyphAlongLine_walk_characterised [of F args oX lX lY flip ls le seg cache rot cache', unfolded Let_def]
  note a1 = a [THEN conjunct1] and a2 = a [THEN conjunct2, THEN conjunct1]
   and a3 = a [THEN conjunct2, THEN conjunct2]
  have p: "placeGlyphAlongLine F oX lX lY flip seg ls le args rot cache = Some (Some g, cache')
         \<longrightarrow> pg_path g \<noteq> [] \<and> last (pg_path g) = pg_point g
             \<and> pathLength (hd (pg_path g)) (tl (pg_path g)) = \<bar>combinedOffset oX lX flip\<bar>"
    using placeGlyphAlongLine_path [of F oX lX lY flip seg ls le args rot cache g cache']
    by blast
  show ?thesis
    unfolding Let_def
    by (intro conjI) (rule a1, rule a2, rule p, rule a3)
qed

text \<open>
  Two runs: the call above, whose path has the length 210, and a call on the straight line
  without a line offset that asks for 12 units where 5 remain, and returns null.
\<close>

theorem placeGlyphAlongLine_null_iff_leaves_range_witness:
  "placeGlyphAlongLine lineIntersection 210 0 (- 10) False 0 0 3 cornerLine False emptyCache
      = Some (Some \<lparr>pg_point = (110, 90), pg_angle = 0,
                     pg_path = [(0, - 10), (110, - 10), (110, 90)]\<rparr>, cornerCache)
   \<and> pathLength (0, - 10) [(110, - 10), (110, 90)] = 210
   \<and> cacheTrue straightLine emptyCache
   \<and> list_all (visible straightLine) (walkIndices (- 1) 0 4 1)
   \<and> remainingLength (walkParams noIntersection straightLine (- 12) 0 0 False 0 4)
        (walkStart (- 1) 0 0 (105, 100)) = 5
   \<and> (\<exists>c. placeGlyphAlongLine noIntersection (- 12) 0 0 False 0 0 4 straightLine False emptyCache
            = Some (None, c))"
proof -
  define W where "W = walkParams noIntersection straightLine (- 12) 0 0 False 0 4"
  have b: "walkBegin W 0 emptyCache = (walkStart (- 1) 0 0 (105, 100), cacheA)"
    using straightLine_begin [of W] by (simp add: W_def walkParams_fields backwards12)
  have i: "walkIndices (- 1) 0 4 1 = [0]" by (simp add: walkIndices_def)
  have v: "list_all (visible straightLine) (walkIndices (- 1) 0 4 1)"
    by (simp add: i straightLine_visible)
  have r: "remainingLength W (walkStart (- 1) 0 0 (105, 100)) = 5"
    by (simp add: remainingLength_def W_def walkParams_fields backwards12 walkStart_def i
                  straightLine_projected pointSub_def pointMag_horizontal)
  have t: "cacheTrue straightLine emptyCache" by (rule cacheTrue_empty)
  have s: "ws_currentIndex (walkStart (- 1) 0 0 (105, 100)) = 1" by (simp add: walkStart_def)
  from placeGlyphAlongLine_null_iff_leaves_range [of noIntersection straightLine "- 12" 0 0 False 0 4 0 emptyCache False emptyCache]
  have n: "\<exists>c. placeGlyphAlongLine noIntersection (- 12) 0 0 False 0 0 4 straightLine False emptyCache
            = Some (None, c)"
    unfolding Let_def W_def [symmetric] b using t v r
    by (simp add: W_def backwards12 s)
  from placeGlyphAlongLine_null_iff_leaves_range [of lineIntersection cornerLine 210 0 "- 10" False 0 3 0 emptyCache False cornerCache
                 "\<lparr>pg_point = (110, 90), pg_angle = 0,
                   pg_path = [(0, - 10), (110, - 10), (110, 90)]\<rparr>"]
  have p: "pathLength (0, - 10) [(110, - 10), (110, 90)] = 210"
    by (simp add: Let_def corner_place combinedOffset_def)
  from n p t v r corner_place show ?thesis by (simp add: W_def)
qed

text \<open>
  With a line offset the remaining length of the line does not decide the result. On the
  line (0, 0), (100, 0), (100, 100), every vertex in front of the camera and the cache
  empty, the remaining length from the anchor (0, 0) is 200; with line offset -10 the call
  for the offset 210 returns a glyph, 210 units along the offset line (0, -10), (110, -10),
  (110, 100), which is 220 long.
\<close>

theorem placeGlyphAlongLine_beyond_remaining_length:
  "cacheTrue cornerLine emptyCache
   \<and> list_all (visible cornerLine) (walkIndices 1 0 3 0)
   \<and> remainingLength (walkParams lineIntersection cornerLine 210 0 (- 10) False 0 3)
        (fst (walkBegin (walkParams lineIntersection cornerLine 210 0 (- 10) False 0 3) 0
                emptyCache)) = 200
   \<and> \<bar>combinedOffset 210 0 False\<bar> = 210
   \<and> placeGlyphAlongLine lineIntersection 210 0 (- 10) False 0 0 3 cornerLine False emptyCache
      = Some (Some \<lparr>pg_point = (110, 90), pg_angle = 0,
                     pg_path = [(0, - 10), (110, - 10), (110, 90)]\<rparr>, cornerCache)"
proof -
  have i: "walkIndices 1 0 3 0 = [1, 2]" by (simp add: walkIndices_def upto.simps)
  have v: "list_all (visible cornerLine) (walkIndices 1 0 3 0)"
    by (simp add: i visible_def cornerLine_fields)
  show ?thesis
    using v by (simp add: cacheTrue_empty corner_remaining corner_place combinedOffset_def)
qed

end
